theory Spec2Isabelle
  imports Main
begin

section \<open>Text primitives of the Python runtime\<close>

text \<open>
  Python text is modelled as \<^typ>\<open>string\<close>; a \<^typ>\<open>char\<close> stands for one code point
  below 256.  The line terminator is the character \<open>\<newline>\<close>.
\<close>

text \<open>\<^verbatim>\<open>s.startswith(sub)\<close>.\<close>

fun startswith :: "string \<Rightarrow> string \<Rightarrow> bool" where
  "startswith s [] = True"
| "startswith [] (p # ps) = False"
| "startswith (c # cs) (p # ps) = (c = p \<and> startswith cs ps)"

text \<open>The substring test \<^verbatim>\<open>sub in s\<close>.\<close>

fun str_in :: "string \<Rightarrow> string \<Rightarrow> bool" where
  "str_in sub [] = (sub = [])"
| "str_in sub (c # cs) = (startswith (c # cs) sub \<or> str_in sub cs)"

text \<open>\<^verbatim>\<open>s.replace('\n', ' ')\<close>.\<close>

definition replace_nl :: "string \<Rightarrow> string" where
  "replace_nl s = map (\<lambda>c. if c = CHR ''\<newline>'' then CHR '' '' else c) s"

text \<open>
  The characters that \<^verbatim>\<open>str.split()\<close> treats as separators, among the code points
  below 256: tab, line feed, vertical tab, form feed, carriage return, the four
  separators 28 to 31, the space, NEL (133) and the no-break space (160).
\<close>

definition isspace :: "char \<Rightarrow> bool" where
  "isspace c = (of_char c \<in> {9, 10, 11, 12, 13, 28, 29, 30, 31, 32, 133, 160 :: nat})"

text \<open>
  \<^verbatim>\<open>s.split()\<close>: the maximal runs of non-separator characters, in order.  The first
  argument is the word read so far.
\<close>

fun split_acc :: "string \<Rightarrow> string \<Rightarrow> string list" where
  "split_acc w [] = (if w = [] then [] else [w])"
| "split_acc w (c # cs) =
     (if isspace c then (if w = [] then split_acc [] cs else w # split_acc [] cs)
      else split_acc (w @ [c]) cs)"

definition split :: "string \<Rightarrow> string list" where
  "split s = split_acc [] s"

text \<open>\<^verbatim>\<open>' '.join(ws)\<close>.\<close>

fun join :: "string list \<Rightarrow> string" where
  "join [] = []"
| "join [w] = w"
| "join (w # v # ws) = w @ CHR '' '' # join (v # ws)"

text \<open>
  \<^verbatim>\<open>s.upper()\<close> on the ASCII letters; the program applies it to a hexadecimal digest
  only.
\<close>

definition upper_char :: "char \<Rightarrow> char" where
  "upper_char c =
     (case map_of (zip ''abcdefghijklmnopqrstuvwxyz'' ''ABCDEFGHIJKLMNOPQRSTUVWXYZ'') c of
        Some u \<Rightarrow> u
      | None \<Rightarrow> c)"

definition upper :: "string \<Rightarrow> string" where
  "upper s = map upper_char s"

text \<open>
  \<^verbatim>\<open>bytes(s, 'utf-8')\<close>, for code points below 256: one byte below 128, two bytes
  from 128 on.
\<close>

definition utf8_char :: "char \<Rightarrow> nat list" where
  "utf8_char c = (let n = of_char c
                  in if n < 128 then [n] else [192 + n div 64, 128 + n mod 64])"

definition utf8 :: "string \<Rightarrow> nat list" where
  "utf8 s = concat (map utf8_char s)"

section \<open>The MD5 message digest (\<^verbatim>\<open>hashlib.md5\<close>, RFC 1321)\<close>

text \<open>
  Bytes are naturals below 256 and words are naturals below \<open>2 ^ 32\<close>, with the
  wrap-around written out.
\<close>

definition md5_K :: "nat list" where
  "md5_K =
    [0xD76AA478, 0xE8C7B756, 0x242070DB, 0xC1BDCEEE,
     0xF57C0FAF, 0x4787C62A, 0xA8304613, 0xFD469501,
     0x698098D8, 0x8B44F7AF, 0xFFFF5BB1, 0x895CD7BE,
     0x6B901122, 0xFD987193, 0xA679438E, 0x49B40821,
     0xF61E2562, 0xC040B340, 0x265E5A51, 0xE9B6C7AA,
     0xD62F105D, 0x02441453, 0xD8A1E681, 0xE7D3FBC8,
     0x21E1CDE6, 0xC33707D6, 0xF4D50D87, 0x455A14ED,
     0xA9E3E905, 0xFCEFA3F8, 0x676F02D9, 0x8D2A4C8A,
     0xFFFA3942, 0x8771F681, 0x6D9D6122, 0xFDE5380C,
     0xA4BEEA44, 0x4BDECFA9, 0xF6BB4B60, 0xBEBFBC70,
     0x289B7EC6, 0xEAA127FA, 0xD4EF3085, 0x04881D05,
     0xD9D4D039, 0xE6DB99E5, 0x1FA27CF8, 0xC4AC5665,
     0xF4292244, 0x432AFF97, 0xAB9423A7, 0xFC93A039,
     0x655B59C3, 0x8F0CCC92, 0xFFEFF47D, 0x85845DD1,
     0x6FA87E4F, 0xFE2CE6E0, 0xA3014314, 0x4E0811A1,
     0xF7537E82, 0xBD3AF235, 0x2AD7D2BB, 0xEB86D391]"

definition md5_s :: "nat list" where
  "md5_s =
    [7, 12, 17, 22, 7, 12, 17, 22, 7, 12, 17, 22, 7, 12, 17, 22,
     5, 9, 14, 20, 5, 9, 14, 20, 5, 9, 14, 20, 5, 9, 14, 20,
     4, 11, 16, 23, 4, 11, 16, 23, 4, 11, 16, 23, 4, 11, 16, 23,
     6, 10, 15, 21, 6, 10, 15, 21, 6, 10, 15, 21, 6, 10, 15, 21]"

definition add32 :: "nat \<Rightarrow> nat \<Rightarrow> nat" where
  "add32 x y = (x + y) mod 2 ^ 32"

definition not32 :: "nat \<Rightarrow> nat" where
  "not32 x = 2 ^ 32 - 1 - x mod 2 ^ 32"

definition rotl32 :: "nat \<Rightarrow> nat \<Rightarrow> nat" where
  "rotl32 x n = or ((x * 2 ^ n) mod 2 ^ 32) (x div 2 ^ (32 - n))"

definition md5_F :: "nat \<Rightarrow> nat \<Rightarrow> nat \<Rightarrow> nat \<Rightarrow> nat" where
  "md5_F i b c d =
     (if i < 16 then or (and b c) (and (not32 b) d)
      else if i < 32 then or (and d b) (and (not32 d) c)
      else if i < 48 then xor (xor b c) d
      else xor c (or b (not32 d)))"

definition md5_g :: "nat \<Rightarrow> nat" where
  "md5_g i =
     (if i < 16 then i
      else if i < 32 then (5 * i + 1) mod 16
      else if i < 48 then (3 * i + 5) mod 16
      else (7 * i) mod 16)"

type_synonym md5_state = "nat \<times> nat \<times> nat \<times> nat"

fun md5_step :: "nat list \<Rightarrow> md5_state \<Rightarrow> nat \<Rightarrow> md5_state" where
  "md5_step m (a, b, c, d) i =
     (let f = add32 (add32 (add32 (md5_F i b c d) a) (md5_K ! i)) (m ! md5_g i)
      in (d, add32 b (rotl32 f (md5_s ! i)), b, c))"

text \<open>A little-endian word of four bytes, and the bytes of a word.\<close>

fun le_word :: "nat list \<Rightarrow> nat" where
  "le_word [] = 0"
| "le_word (x # xs) = x + 256 * le_word xs"

definition le_bytes4 :: "nat \<Rightarrow> nat list" where
  "le_bytes4 n = [n mod 256, n div 256 mod 256, n div 65536 mod 256, n div 16777216 mod 256]"

definition le_bytes8 :: "nat \<Rightarrow> nat list" where
  "le_bytes8 n = le_bytes4 (n mod 2 ^ 32) @ le_bytes4 (n div 2 ^ 32 mod 2 ^ 32)"

fun chunks :: "nat \<Rightarrow> nat \<Rightarrow> 'a list \<Rightarrow> 'a list list" where
  "chunks 0 n xs = []"
| "chunks (Suc k) n xs = take n xs # chunks k n (drop n xs)"

definition md5_rounds :: "nat list \<Rightarrow> md5_state \<Rightarrow> md5_state" where
  "md5_rounds m st = foldl (md5_step m) st [0..<64]"

fun add_state :: "md5_state \<Rightarrow> md5_state \<Rightarrow> md5_state" where
  "add_state (a0, b0, c0, d0) (a, b, c, d) = (add32 a0 a, add32 b0 b, add32 c0 c, add32 d0 d)"

definition md5_block :: "md5_state \<Rightarrow> nat list \<Rightarrow> md5_state" where
  "md5_block st blk = add_state st (md5_rounds (map le_word (chunks 16 4 blk)) st)"

text \<open>
  Padding: one byte 128, zero bytes up to 56 modulo 64, then the length in bits as
  eight little-endian bytes.
\<close>

definition md5_pad :: "nat list \<Rightarrow> nat list" where
  "md5_pad bs =
     (let n = length bs
      in bs @ [128] @ replicate ((119 - n mod 64) mod 64) 0 @ le_bytes8 ((8 * n) mod 2 ^ 64))"

definition md5_init :: md5_state where
  "md5_init = (0x67452301, 0xEFCDAB89, 0x98BADCFE, 0x10325476)"

definition blocks :: "nat list \<Rightarrow> nat list list" where
  "blocks p = chunks (length p div 64) 64 p"

fun digest_bytes :: "md5_state \<Rightarrow> nat list" where
  "digest_bytes (a, b, c, d) = le_bytes4 a @ le_bytes4 b @ le_bytes4 c @ le_bytes4 d"

definition md5 :: "nat list \<Rightarrow> nat list" where
  "md5 bs = digest_bytes (foldl md5_block md5_init (blocks (md5_pad bs)))"

definition hex_digit :: "nat \<Rightarrow> char" where
  "hex_digit n = ''0123456789abcdef'' ! n"

text \<open>\<^verbatim>\<open>.hexdigest()\<close>: two lower-case hexadecimal digits for each byte.\<close>

definition hexdigest :: "nat list \<Rightarrow> string" where
  "hexdigest bs = concat (map (\<lambda>b. [hex_digit (b div 16), hex_digit (b mod 16)]) bs)"

text \<open>\<^verbatim>\<open>hashlib.md5(bytes(s, 'utf-8')).hexdigest().upper()\<close>.\<close>

definition md5_hex_upper :: "string \<Rightarrow> string" where
  "md5_hex_upper s = upper (hexdigest (md5 (utf8 s)))"

section \<open>Template validation and composition\<close>

text \<open>\<^verbatim>\<open>is_cot_template\<close> (tak2mm.py, tak2msc-nogui.py): both markers occur somewhere.\<close>

fun is_cot_template_loop :: "bool \<times> bool \<Rightarrow> string list \<Rightarrow> bool \<times> bool" where
  "is_cot_template_loop (cotXmlSubject, blankRemarks) [] = (cotXmlSubject, blankRemarks)"
| "is_cot_template_loop (cotXmlSubject, blankRemarks) (line # rest) =
     is_cot_template_loop
       (if str_in ''SUBJ/COTXML//'' line then True else cotXmlSubject,
        if str_in ''GENTEXT/REMARKS/-//'' line then True else blankRemarks) rest"

definition is_cot_template :: "string list \<Rightarrow> bool" where
  "is_cot_template lines =
     (case is_cot_template_loop (False, False) lines of
        (cotXmlSubject, blankRemarks) \<Rightarrow> if cotXmlSubject \<and> blankRemarks then True else False)"

text \<open>
  The local variables of \<^verbatim>\<open>calculate_digest\<close> (tak2mm.py and tak2msc-nogui.py, the
  same text in both).
\<close>

record scan =
  bigString :: string
  digest :: string
  startOfString :: bool
  endOfString :: bool
  pastClassifier :: bool

definition scan_init :: scan where
  "scan_init = \<lparr>bigString = [], digest = [], startOfString = False, endOfString = False,
                 pastClassifier = False\<rparr>"

text \<open>The line that replaces a blank-remarks line.\<close>

definition remarks_line :: "string \<Rightarrow> string" where
  "remarks_line cotString = ''GENTEXT/REMARKS/'' @ cotString @ ''//'' @ ''\<newline>''"

text \<open>The line that replaces a digest line.\<close>

definition digest_line :: "string \<Rightarrow> string" where
  "digest_line dg = ''[DIGEST:'' @ dg @ '']\<newline>''"

text \<open>
  One iteration of the loop, on the line at the current index: the new values of the
  local variables and the new content of \<^verbatim>\<open>lines[i]\<close>.
\<close>

definition scan_line :: "string \<Rightarrow> scan \<Rightarrow> string \<Rightarrow> scan \<times> string" where
  "scan_line cotString st line =
     (if \<not> startOfString st \<and> \<not> endOfString st then
        (if str_in ''BT\<newline>'' line
         then (st\<lparr>startOfString := True\<rparr>, line)
         else (st, line))
      else if startOfString st \<and> \<not> endOfString st \<and> \<not> pastClassifier st then
        (st\<lparr>pastClassifier := True\<rparr>, line)
      else if startOfString st \<and> \<not> endOfString st \<and> pastClassifier st then
        (if str_in ''BT\<newline>'' line
         then (st\<lparr>endOfString := True\<rparr>, line)
         else if str_in ''GENTEXT/REMARKS/-//'' line
         then (st\<lparr>bigString := bigString st @ replace_nl (remarks_line cotString)\<rparr>,
               remarks_line cotString)
         else (st\<lparr>bigString := bigString st @ replace_nl line\<rparr>, line))
      else if startOfString st \<and> endOfString st then
        (if str_in ''[DIGEST:'' line
         then (st\<lparr>bigString := join (split (bigString st)),
                  digest := md5_hex_upper (join (split (bigString st)))\<rparr>,
               digest_line (md5_hex_upper (join (split (bigString st)))))
         else (st, line))
      else (st, line))"

text \<open>
  The loop \<^verbatim>\<open>for i in range(len(lines))\<close>: iteration \<open>i\<close> reads and writes
  \<^verbatim>\<open>lines[i]\<close> only, so the loop is a left-to-right pass over the list.
\<close>

fun scan_lines :: "string \<Rightarrow> scan \<Rightarrow> string list \<Rightarrow> string list" where
  "scan_lines cotString st [] = []"
| "scan_lines cotString st (line # rest) =
     (case scan_line cotString st line of
        (st', line') \<Rightarrow> line' # scan_lines cotString st' rest)"

definition calculate_digest :: "string list \<Rightarrow> string \<Rightarrow> string list" where
  "calculate_digest lines cotString = scan_lines cotString scan_init lines"

subsection \<open>Vocabulary for the composition properties\<close>

text \<open>What the loop does to a line of the span.\<close>

definition subst_remarks :: "string \<Rightarrow> string \<Rightarrow> string" where
  "subst_remarks cotString line =
     (if str_in ''GENTEXT/REMARKS/-//'' line then remarks_line cotString else line)"

text \<open>
  The string that is hashed: the span lines after substitution, each with its newline
  replaced by a space, concatenated, then \<^verbatim>\<open>' '.join(bigString.split())\<close>.
\<close>

definition canonical :: "string \<Rightarrow> string list \<Rightarrow> string" where
  "canonical cotString span =
     join (split (concat (map (\<lambda>line. replace_nl (subst_remarks cotString line)) span)))"

text \<open>What the loop does to a line after the end sentinel.\<close>

definition fill_digest :: "string \<Rightarrow> string \<Rightarrow> string" where
  "fill_digest big line =
     (if str_in ''[DIGEST:'' line then digest_line (md5_hex_upper big) else line)"

text \<open>
  The canonical string as the specification words it: runs of whitespace collapsed to
  single spaces, and nothing else.  The flag says whether the previous character was
  whitespace.
\<close>

fun collapse_acc :: "bool \<Rightarrow> string \<Rightarrow> string" where
  "collapse_acc b [] = []"
| "collapse_acc b (c # cs) =
     (if isspace c then (if b then collapse_acc True cs else CHR '' '' # collapse_acc True cs)
      else c # collapse_acc False cs)"

definition claimed_canonical :: "string list \<Rightarrow> string" where
  "claimed_canonical span_lines = collapse_acc False (concat (map replace_nl span_lines))"

text \<open>A sentinel as the specification words it: the line is the bare text \<open>BT\<close>.\<close>

definition bare_BT :: "string \<Rightarrow> bool" where
  "bare_BT line = (line = ''BT\<newline>'')"

text \<open>Positions: the first sentinel, and the next sentinel after the classifier line.\<close>

fun first_index :: "('a \<Rightarrow> bool) \<Rightarrow> 'a list \<Rightarrow> nat option" where
  "first_index P [] = None"
| "first_index P (x # xs) = (if P x then Some 0 else map_option Suc (first_index P xs))"

definition start_index :: "string list \<Rightarrow> nat option" where
  "start_index lines = first_index (str_in ''BT\<newline>'') lines"

definition end_index :: "string list \<Rightarrow> nat option" where
  "end_index lines =
     (case start_index lines of
        None \<Rightarrow> None
      | Some s \<Rightarrow> map_option (\<lambda>j. s + 2 + j) (first_index (str_in ''BT\<newline>'') (drop (s + 2) lines)))"

definition in_span :: "string list \<Rightarrow> nat \<Rightarrow> bool" where
  "in_span lines i =
     (case start_index lines of
        None \<Rightarrow> False
      | Some s \<Rightarrow> s + 1 < i \<and> (case end_index lines of None \<Rightarrow> True | Some e \<Rightarrow> i < e))"

definition after_end :: "string list \<Rightarrow> nat \<Rightarrow> bool" where
  "after_end lines i = (case end_index lines of None \<Rightarrow> False | Some e \<Rightarrow> e < i)"

section \<open>The event mailbox and the listeners\<close>

datatype py_error = IndexError | NameError

definition XML_HEADER :: string where
  \<open>XML_HEADER = ''<?xml version="1.0" encoding="UTF-8"?>''\<close>

definition EVENT_HEADER :: string where
  \<open>EVENT_HEADER = ''<event version="2.0" ''\<close>

definition SA_EVENT_TYPE :: string where
  \<open>SA_EVENT_TYPE = ''type="a-f-G-U-C''\<close>

definition PD_EVENT_TYPE :: string where
  \<open>PD_EVENT_TYPE = ''parent_callsign=''\<close>

text \<open>
  \<^verbatim>\<open>s.split(sep)\<close> for a separator that is not empty.  The second argument is the
  piece read so far.
\<close>

function split_on_acc :: "string \<Rightarrow> string \<Rightarrow> string \<Rightarrow> string list" where
  "split_on_acc sep cur [] = [cur]"
| "split_on_acc sep cur (c # cs) =
     (if sep \<noteq> [] \<and> startswith (c # cs) sep
      then cur # split_on_acc sep [] (drop (length sep) (c # cs))
      else split_on_acc sep (cur @ [c]) cs)"
  by pat_completeness auto
termination
  by (relation "measure (\<lambda>(sep, cur, rest). length rest)") auto

definition split_on :: "string \<Rightarrow> string \<Rightarrow> string list" where
  "split_on sep s = split_on_acc sep [] s"

text \<open>\<^verbatim>\<open>xs[i]\<close> on a list, for an index that is not negative.\<close>

definition index :: "'a list \<Rightarrow> nat \<Rightarrow> py_error + 'a" where
  "index xs i = (if i < length xs then Inr (xs ! i) else Inl IndexError)"

text \<open>
  The two mailbox slots of tak2mm.py and tak2msc-nogui.py: module globals, empty when
  they hold the empty string.
\<close>

record mailbox =
  myPosition_event :: string
  pointDropper_event :: string

text \<open>
  Classification and deposit of the event line \<^verbatim>\<open>xml[1]\<close> (tak2mm.py lines 164 to
  169, tak2msc-nogui.py lines 158 to 163).
\<close>

definition deposit :: "string \<Rightarrow> mailbox \<Rightarrow> mailbox" where
  "deposit xml1 mb =
     (if str_in PD_EVENT_TYPE xml1 \<and> pointDropper_event mb = []
      then mb\<lparr>pointDropper_event := xml1\<rparr>
      else if str_in SA_EVENT_TYPE xml1 \<and> myPosition_event mb = []
      then mb\<lparr>myPosition_event := xml1\<rparr>
      else mb)"

text \<open>
  The body of the listener's \<^verbatim>\<open>try\<close> block for one received datagram.  The only
  handler is for \<^verbatim>\<open>socket.timeout\<close>, so an \<^verbatim>\<open>IndexError\<close> from \<^verbatim>\<open>xml[1]\<close> leaves the
  loop.
\<close>

definition cotXmlListener_recv :: "string \<Rightarrow> mailbox \<Rightarrow> py_error + mailbox" where
  "cotXmlListener_recv data_string mb =
     (if \<not> str_in EVENT_HEADER data_string then Inr mb
      else (case index (split_on ''\<newline>'' data_string) 1 of
              Inl e \<Rightarrow> Inl e
            | Inr xml1 \<Rightarrow> Inr (deposit xml1 mb)))"

text \<open>
  The dispatcher's choice in the main loop of tak2mm.py (lines 381 to 396): the payload
  handed to \<^verbatim>\<open>calculate_digest\<close>, and the mailbox with that slot cleared.
\<close>

definition dispatch :: "bool \<Rightarrow> mailbox \<Rightarrow> (string \<times> mailbox) option" where
  "dispatch template_exists mb =
     (if template_exists \<and> myPosition_event mb \<noteq> []
      then Some (myPosition_event mb, mb\<lparr>myPosition_event := []\<rparr>)
      else if template_exists \<and> pointDropper_event mb \<noteq> []
      then Some (pointDropper_event mb, mb\<lparr>pointDropper_event := []\<rparr>)
      else None)"

text \<open>
  The payloads that a number of iterations of the main loop of tak2mm.py hand to
  \<^verbatim>\<open>calculate_digest\<close>, in order, a template being held at each iteration and nothing
  being deposited meanwhile.  An iteration that finds both slots empty delivers nothing.
\<close>

fun deliveries :: "nat \<Rightarrow> mailbox \<Rightarrow> string list" where
  "deliveries 0 mb = []"
| "deliveries (Suc n) mb =
     (case dispatch True mb of
        None \<Rightarrow> deliveries n mb
      | Some (payload, mb') \<Rightarrow> payload # deliveries n mb')"

text \<open>
  The windowed variant tak2msc.py keeps each event in a text variable with a status
  field beside it.
\<close>

definition messageSatusList :: "string list" where
  "messageSatusList = [''WAITING FOR MESSAGE'', ''READY TO SEND'', ''SENDING MESSAGE'', ''MESSAGE SENT'']"

record gui =
  myPosition_var :: string
  pntDropper_var :: string
  myPositionStatus_entry :: string
  pointDropStatus_entry :: string

definition setStatus :: "string \<Rightarrow> nat \<Rightarrow> gui \<Rightarrow> gui" where
  "setStatus message_type status_index g =
     (if message_type = ''position'' then g\<lparr>myPositionStatus_entry := messageSatusList ! status_index\<rparr>
      else if message_type = ''point'' then g\<lparr>pointDropStatus_entry := messageSatusList ! status_index\<rparr>
      else g\<lparr>myPositionStatus_entry := messageSatusList ! 0,
             pointDropStatus_entry := messageSatusList ! 0\<rparr>)"

text \<open>Classification and deposit in tak2msc.py (lines 461 to 466).\<close>

definition deposit_gui :: "string \<Rightarrow> gui \<Rightarrow> gui" where
  "deposit_gui xml1 g =
     (if str_in PD_EVENT_TYPE xml1 then setStatus ''point'' 1 (g\<lparr>pntDropper_var := xml1\<rparr>)
      else if str_in SA_EVENT_TYPE xml1 then setStatus ''position'' 1 (g\<lparr>myPosition_var := xml1\<rparr>)
      else g)"

text \<open>The From and To call signs chosen in the window (tak2msc.py lines 71 to 75).\<close>

record addressing =
  fromAddress_var :: string
  toAddress_var :: string

text \<open>
  The message that \<^verbatim>\<open>sendToMsgMachine\<close> takes for a message type (tak2msc.py lines 279
  to 298), when there is one: the function warns and returns without a message while a
  call sign is missing, and unless the status of the message type is
  \<open>READY TO SEND\<close>.
\<close>

definition sendToMsgMachine_message :: "addressing \<Rightarrow> string \<Rightarrow> gui \<Rightarrow> string option" where
  "sendToMsgMachine_message a message_type g =
     (if fromAddress_var a = [] \<or> toAddress_var a = [] then None
      else if message_type = ''position''
      then (if myPositionStatus_entry g = messageSatusList ! 1 then Some (myPosition_var g) else None)
      else if message_type = ''point''
      then (if pointDropStatus_entry g = messageSatusList ! 1 then Some (pntDropper_var g) else None)
      else None)"

subsection \<open>The control-channel listener of tak2mm.py\<close>

text \<open>
  The module constants of tak2mm.py that hold text, and those of tak2cp.py.  Reading a
  name that the module does not define raises \<^verbatim>\<open>NameError\<close>.
\<close>

definition tak2mm_globals :: "string \<rightharpoonup> string" where
  \<open>tak2mm_globals =
     [''LOCALHOST'' \<mapsto> ''127.0.0.1'',
      ''TAK_MCAST_GROUP'' \<mapsto> ''239.2.3.1'',
      ''XML_HEADER'' \<mapsto> XML_HEADER,
      ''EVENT_HEADER'' \<mapsto> EVENT_HEADER,
      ''SA_EVENT_TYPE'' \<mapsto> SA_EVENT_TYPE,
      ''PD_EVENT_TYPE'' \<mapsto> PD_EVENT_TYPE,
      ''IMPORTS_PATH'' \<mapsto> ''C:/MSC/MessageMachine64/imports'',
      ''TAK2MSC_PATH'' \<mapsto> ''C:/MSC/MessageMachine64/imports/tak2msc'']\<close>

definition tak2cp_globals :: "string \<rightharpoonup> string" where
  \<open>tak2cp_globals =
     [''LOCALHOST'' \<mapsto> ''127.0.0.1'',
      ''TAK_MCAST_GROUP'' \<mapsto> ''239.2.3.1'',
      ''XML_HEADER'' \<mapsto> XML_HEADER,
      ''TAK_XML_HEADER'' \<mapsto> ''<?xml version="1.0" encoding="UTF-8" standalone="yes"?>'',
      ''COT_EVENT_HEADER'' \<mapsto> ''<event version="2.0" '']\<close>

definition name_lookup :: "(string \<rightharpoonup> string) \<Rightarrow> string \<Rightarrow> py_error + string" where
  "name_lookup globals name = (case globals name of None \<Rightarrow> Inl NameError | Some v \<Rightarrow> Inr v)"

text \<open>
  What \<^verbatim>\<open>cpListener\<close> of tak2mm.py does with one parsed record (lines 242 to 259), from
  the record's command and payload: the new value of \<^verbatim>\<open>data_from_cp\<close>, or the
  exception that leaves the \<^verbatim>\<open>try\<close> block, whose only handler is for
  \<^verbatim>\<open>socket.timeout\<close>.
\<close>

definition cpListener_record ::
  "(string \<rightharpoonup> string) \<Rightarrow> string \<Rightarrow> string \<Rightarrow> string \<Rightarrow> py_error + string" where
  "cpListener_record globals command payload_data_from_cp data_from_cp =
     (if command = ''status'' then Inr data_from_cp
      else if command = ''config'' then Inr data_from_cp
      else if command = ''ack'' then Inr data_from_cp
      else if command = ''data'' then
        (case name_lookup globals ''COT_EVENT_HEADER'' of
           Inl e \<Rightarrow> Inl e
         | Inr cot_event_header \<Rightarrow>
             if str_in cot_event_header payload_data_from_cp then
               (if str_in ''GENTEXT/REMARKS/'' payload_data_from_cp then
                  (case index (split_on ''GENTEXT/REMARKS/'' payload_data_from_cp) 1 of
                     Inl e \<Rightarrow> Inl e
                   | Inr p1 \<Rightarrow>
                       (case index (split_on ''//'' p1) 0 of
                          Inl e \<Rightarrow> Inl e
                        | Inr p2 \<Rightarrow>
                            (case name_lookup globals ''TAK_XML_HEADER'' of
                               Inl e \<Rightarrow> Inl e
                             | Inr tak_xml_header \<Rightarrow> Inr (tak_xml_header @ ''\<newline>'' @ p2))))
                else Inr data_from_cp)
             else Inr data_from_cp)
      else Inr data_from_cp)"

section \<open>The template listener of tak2mm.py\<close>

text \<open>
  The hand-off directory in listing order, each file with its lines (\<open>None\<close> when the
  file cannot be read), and the two module globals the thread writes.  A file is named
  by its name in the directory.
\<close>

record watcher =
  directory :: "(string \<times> string list option) list"
  held_lines :: "string list"
  messageCreator_file :: string

datatype loop_ctl = Next | Break

text \<open>One iteration of the loop of \<^verbatim>\<open>templateListener\<close> (lines 281 to 303).\<close>

definition templateListener_iter :: "watcher \<Rightarrow> loop_ctl \<times> watcher" where
  "templateListener_iter w =
     (if length (directory w) > 0 \<and> length (held_lines w) = 0 then
        (case hd (directory w) of
           (filename, content) \<Rightarrow>
             (case content of
                None \<Rightarrow> (Next, w\<lparr>messageCreator_file := filename\<rparr>)
              | Some ls \<Rightarrow>
                  if \<not> is_cot_template ls
                  then (Break, w\<lparr>directory := tl (directory w), messageCreator_file := [],
                                 held_lines := []\<rparr>)
                  else (Next, w\<lparr>messageCreator_file := filename, held_lines := ls\<rparr>)))
      else (Next, w))"

text \<open>
  After the loop the thread removes every file that is left in the directory and
  returns (lines 305 to 315).
\<close>

definition templateListener_exit :: "watcher \<Rightarrow> watcher" where
  "templateListener_exit w = w\<lparr>directory := []\<rparr>"

datatype thread = Polling watcher | Exited watcher

text \<open>
  The thread for a number of iterations, while the running flag stays set and nothing
  else touches the directory or the globals.
\<close>

fun templateListener :: "nat \<Rightarrow> watcher \<Rightarrow> thread" where
  "templateListener 0 w = Polling w"
| "templateListener (Suc n) w =
     (case templateListener_iter w of
        (Break, w') \<Rightarrow> Exited (templateListener_exit w')
      | (Next, w') \<Rightarrow> templateListener n w')"

section \<open>Example documents and events\<close>

definition doc_plain :: "string list" where
  "doc_plain =
     [''SUBJ/COTXML//\<newline>'', ''BT\<newline>'', ''UNCLAS\<newline>'', ''GENTEXT/REMARKS/-//\<newline>'', ''BT\<newline>'',
      ''[DIGEST:]\<newline>'']"

definition doc_two_remarks :: "string list" where
  "doc_two_remarks =
     [''BT\<newline>'', ''UNCLAS\<newline>'', ''GENTEXT/REMARKS/-//\<newline>'', ''GENTEXT/REMARKS/-//\<newline>'', ''BT\<newline>'',
      ''[DIGEST:]\<newline>'']"

definition doc_debt :: "string list" where
  "doc_debt =
     [''DEBT\<newline>'', ''UNCLAS\<newline>'', ''GENTEXT/REMARKS/-//\<newline>'', ''BT\<newline>'', ''[DIGEST:]\<newline>'']"

definition doc_no_end :: "string list" where
  "doc_no_end = [''BT\<newline>'', ''UNCLAS\<newline>'', ''GENTEXT/REMARKS/-//\<newline>'', ''[DIGEST:]\<newline>'']"

definition doc_no_end_mixed :: "string list" where
  "doc_no_end_mixed = [''BT\<newline>'', ''UNCLAS\<newline>'', ''GENTEXT/REMARKS/-//[DIGEST:]\<newline>'']"

definition pd_event_1 :: string where
  \<open>pd_event_1 = ''<event version="2.0" uid="drop-1" parent_callsign="ALPHA"/>''\<close>

definition pd_event_2 :: string where
  \<open>pd_event_2 = ''<event version="2.0" uid="drop-2" parent_callsign="ALPHA"/>''\<close>

definition sa_event_1 :: string where
  \<open>sa_event_1 = ''<event version="2.0" uid="self-1" type="a-f-G-U-C"/>''\<close>

definition sa_event_2 :: string where
  \<open>sa_event_2 = ''<event version="2.0" uid="self-2" type="a-f-G-U-C"/>''\<close>

definition mailbox_empty :: mailbox where
  "mailbox_empty = \<lparr>myPosition_event = [], pointDropper_event = []\<rparr>"

definition gui_init :: gui where
  "gui_init = \<lparr>myPosition_var = [], pntDropper_var = [],
                myPositionStatus_entry = messageSatusList ! 0,
                pointDropStatus_entry = messageSatusList ! 0\<rparr>"

definition addressing_unset :: addressing where
  "addressing_unset = \<lparr>fromAddress_var = [], toAddress_var = []\<rparr>"

definition addressing_set :: addressing where
  "addressing_set = \<lparr>fromAddress_var = ''AAR1AA'', toAddress_var = ''AAR2BB''\<rparr>"

section \<open>Properties of the text primitives and of the scan\<close>

lemma split_acc_nospace:
  "\<forall>c\<in>set u. \<not> isspace c \<Longrightarrow> split_acc w (u @ cs) = split_acc (w @ u) cs"
  by (induction u arbitrary: w) simp_all

lemma split_acc_words:
  "x \<in> set (split_acc w s) \<Longrightarrow> \<forall>c\<in>set w. \<not> isspace c \<Longrightarrow> x \<noteq> [] \<and> (\<forall>c\<in>set x. \<not> isspace c)"
proof (induction s arbitrary: w)
  case Nil
  then show ?case by (cases "w = []") simp_all
next
  case (Cons a s)
  show ?case
  proof (cases "isspace a")
    case True
    with Cons.prems(1) have "(x = w \<and> w \<noteq> []) \<or> x \<in> set (split_acc [] s)"
      by (cases "w = []") simp_all
    then show ?thesis
    proof
      assume "x = w \<and> w \<noteq> []"
      with Cons.prems(2) show ?thesis by simp
    next
      assume "x \<in> set (split_acc [] s)"
      then show ?thesis by (rule Cons.IH) simp
    qed
  next
    case False
    with Cons.prems(1) have "x \<in> set (split_acc (w @ [a]) s)" by simp
    moreover have "\<forall>c\<in>set (w @ [a]). \<not> isspace c"
      using Cons.prems(2) False by simp
    ultimately show ?thesis by (rule Cons.IH)
  qed
qed

lemma isspace_space: "isspace (CHR '' '')"
  by (simp add: isspace_def)

lemma split_join:
  "\<forall>x\<in>set ws. x \<noteq> [] \<and> (\<forall>c\<in>set x. \<not> isspace c) \<Longrightarrow> split_acc [] (join ws) = ws"
proof (induction ws rule: join.induct)
  case 1
  show ?case by simp
next
  case (2 w)
  then have "split_acc [] (w @ []) = split_acc ([] @ w) []"
    by (intro split_acc_nospace) simp
  with 2 show ?case by simp
next
  case (3 w v ws)
  then have "split_acc [] (w @ CHR '' '' # join (v # ws)) = split_acc ([] @ w) (CHR '' '' # join (v # ws))"
    by (intro split_acc_nospace) simp
  with 3 show ?case by (simp add: isspace_space)
qed

lemma norm_idem: "join (split (join (split s))) = join (split s)"
proof -
  have "\<forall>x\<in>set (split s). x \<noteq> [] \<and> (\<forall>c\<in>set x. \<not> isspace c)"
    unfolding split_def using split_acc_words [of _ "[]" s] by simp
  then have "split (join (split s)) = split s"
    unfolding split_def by (rule split_join)
  then show ?thesis by simp
qed

lemma scan_after:
  "startOfString st \<Longrightarrow> endOfString st \<Longrightarrow>
   scan_lines cot st ls = map (fill_digest (join (split (bigString st)))) ls"
proof (induction ls arbitrary: st)
  case Nil
  show ?case by simp
next
  case (Cons l ls)
  show ?case
  proof (cases "str_in ''[DIGEST:'' l")
    case True
    let ?st = "st\<lparr>bigString := join (split (bigString st)),
                   digest := md5_hex_upper (join (split (bigString st)))\<rparr>"
    have "scan_line cot st l = (?st, digest_line (md5_hex_upper (join (split (bigString st)))))"
      using Cons.prems True by (simp add: scan_line_def)
    moreover have "scan_lines cot ?st ls = map (fill_digest (join (split (bigString ?st)))) ls"
      using Cons.prems by (intro Cons.IH) simp_all
    ultimately show ?thesis using True by (simp add: fill_digest_def norm_idem)
  next
    case False
    have "scan_line cot st l = (st, l)"
      using Cons.prems False by (simp add: scan_line_def)
    then show ?thesis using False Cons.IH [OF Cons.prems] by (simp add: fill_digest_def)
  qed
qed

lemma scan_span:
  "startOfString st \<Longrightarrow> \<not> endOfString st \<Longrightarrow> pastClassifier st \<Longrightarrow>
   \<forall>l\<in>set ls. \<not> str_in ''BT\<newline>'' l \<Longrightarrow>
   scan_lines cot st (ls @ rest) =
     map (subst_remarks cot) ls @
     scan_lines cot
       (st\<lparr>bigString := bigString st @ concat (map (\<lambda>l. replace_nl (subst_remarks cot l)) ls)\<rparr>) rest"
proof (induction ls arbitrary: st)
  case Nil
  show ?case by simp
next
  case (Cons l ls)
  let ?st = "st\<lparr>bigString := bigString st @ replace_nl (subst_remarks cot l)\<rparr>"
  have step: "scan_line cot st l = (?st, subst_remarks cot l)"
    using Cons.prems by (simp add: scan_line_def subst_remarks_def)
  have "scan_lines cot ?st (ls @ rest) =
     map (subst_remarks cot) ls @
     scan_lines cot
       (?st\<lparr>bigString := bigString ?st @ concat (map (\<lambda>l. replace_nl (subst_remarks cot l)) ls)\<rparr>) rest"
    using Cons.prems by (intro Cons.IH) simp_all
  with step show ?case by simp
qed

lemma scan_end:
  "startOfString st \<Longrightarrow> \<not> endOfString st \<Longrightarrow> pastClassifier st \<Longrightarrow> str_in ''BT\<newline>'' e \<Longrightarrow>
   scan_lines cot st (e # post) = e # scan_lines cot (st\<lparr>endOfString := True\<rparr>) post"
  by (simp add: scan_line_def)

lemma scan_classifier:
  "startOfString st \<Longrightarrow> \<not> endOfString st \<Longrightarrow> \<not> pastClassifier st \<Longrightarrow>
   scan_lines cot st (c # rest) = c # scan_lines cot (st\<lparr>pastClassifier := True\<rparr>) rest"
  by (simp add: scan_line_def)

lemma scan_before:
  "\<not> startOfString st \<Longrightarrow> \<not> endOfString st \<Longrightarrow> \<forall>l\<in>set pre. \<not> str_in ''BT\<newline>'' l \<Longrightarrow>
   scan_lines cot st (pre @ rest) = pre @ scan_lines cot st rest"
  by (induction pre) (simp_all add: scan_line_def)

lemma scan_start:
  "\<not> startOfString st \<Longrightarrow> \<not> endOfString st \<Longrightarrow> str_in ''BT\<newline>'' s \<Longrightarrow>
   scan_lines cot st (s # rest) = s # scan_lines cot (st\<lparr>startOfString := True\<rparr>) rest"
  by (simp add: scan_line_def)

lemma compose_no_start:
  assumes "\<forall>l\<in>set lines. \<not> str_in ''BT\<newline>'' l"
  shows "calculate_digest lines cot = lines"
  using scan_before [of scan_init lines cot "[]"] assms
  by (simp add: calculate_digest_def scan_init_def)

lemma compose_no_end:
  assumes "\<forall>l\<in>set pre. \<not> str_in ''BT\<newline>'' l" and "str_in ''BT\<newline>'' s"
    and "\<forall>l\<in>set span. \<not> str_in ''BT\<newline>'' l"
  shows "calculate_digest (pre @ s # c # span) cot = pre @ s # c # map (subst_remarks cot) span"
proof -
  let ?s1 = "scan_init\<lparr>startOfString := True\<rparr>"
  let ?s2 = "?s1\<lparr>pastClassifier := True\<rparr>"
  have "scan_lines cot scan_init (pre @ s # c # span) = pre @ scan_lines cot scan_init (s # c # span)"
    using assms(1) by (intro scan_before) (simp_all add: scan_init_def)
  also have "scan_lines cot scan_init (s # c # span) = s # scan_lines cot ?s1 (c # span)"
    using assms(2) by (intro scan_start) (simp_all add: scan_init_def)
  also have "scan_lines cot ?s1 (c # span) = c # scan_lines cot ?s2 span"
    by (intro scan_classifier) (simp_all add: scan_init_def)
  also have "scan_lines cot ?s2 span = map (subst_remarks cot) span"
    using scan_span [of ?s2 span cot "[]"] assms(3) by (simp add: scan_init_def)
  finally show ?thesis by (simp add: calculate_digest_def)
qed

lemma compose_start_only:
  assumes "\<forall>l\<in>set pre. \<not> str_in ''BT\<newline>'' l" and "str_in ''BT\<newline>'' s"
  shows "calculate_digest (pre @ [s]) cot = pre @ [s]"
proof -
  have "scan_lines cot scan_init (pre @ [s]) = pre @ scan_lines cot scan_init [s]"
    using assms(1) by (intro scan_before) (simp_all add: scan_init_def)
  also have "scan_lines cot scan_init [s] = [s]"
    using assms(2) by (simp add: scan_line_def scan_init_def)
  finally show ?thesis by (simp add: calculate_digest_def)
qed

lemma compose_full:
  assumes "\<forall>l\<in>set pre. \<not> str_in ''BT\<newline>'' l" and "str_in ''BT\<newline>'' s"
    and "\<forall>l\<in>set span. \<not> str_in ''BT\<newline>'' l" and "str_in ''BT\<newline>'' e"
  shows "calculate_digest (pre @ s # c # span @ e # post) cot =
         pre @ s # c # map (subst_remarks cot) span @ e # map (fill_digest (canonical cot span)) post"
proof -
  let ?s1 = "scan_init\<lparr>startOfString := True\<rparr>"
  let ?s2 = "?s1\<lparr>pastClassifier := True\<rparr>"
  let ?s3 = "?s2\<lparr>bigString := bigString ?s2 @ concat (map (\<lambda>l. replace_nl (subst_remarks cot l)) span)\<rparr>"
  let ?s4 = "?s3\<lparr>endOfString := True\<rparr>"
  have "scan_lines cot scan_init (pre @ s # c # span @ e # post) =
        pre @ scan_lines cot scan_init (s # c # span @ e # post)"
    using assms(1) by (intro scan_before) (simp_all add: scan_init_def)
  also have "scan_lines cot scan_init (s # c # span @ e # post) =
             s # scan_lines cot ?s1 (c # span @ e # post)"
    using assms(2) by (intro scan_start) (simp_all add: scan_init_def)
  also have "scan_lines cot ?s1 (c # span @ e # post) = c # scan_lines cot ?s2 (span @ e # post)"
    by (intro scan_classifier) (simp_all add: scan_init_def)
  also have "scan_lines cot ?s2 (span @ e # post) =
             map (subst_remarks cot) span @ scan_lines cot ?s3 (e # post)"
    using assms(3) by (intro scan_span) (simp_all add: scan_init_def)
  also have "scan_lines cot ?s3 (e # post) = e # scan_lines cot ?s4 post"
    using assms(4) by (intro scan_end) (simp_all add: scan_init_def)
  also have "scan_lines cot ?s4 post = map (fill_digest (join (split (bigString ?s4)))) post"
    by (intro scan_after) (simp_all add: scan_init_def)
  also have "join (split (bigString ?s4)) = canonical cot span"
    by (simp add: canonical_def scan_init_def)
  finally show ?thesis by (simp add: calculate_digest_def)
qed

lemma scan_lines_length: "length (scan_lines cot st ls) = length ls"
  by (induction ls arbitrary: st) (simp_all split: prod.splits)

lemma calculate_digest_length: "length (calculate_digest ls cot) = length ls"
  by (simp add: calculate_digest_def scan_lines_length)

lemma first_index_None: "first_index P xs = None \<longleftrightarrow> (\<forall>x\<in>set xs. \<not> P x)"
  by (induction xs) simp_all

lemma first_index_hit:
  "\<forall>x\<in>set pre. \<not> P x \<Longrightarrow> P y \<Longrightarrow> first_index P (pre @ y # ys) = Some (length pre)"
  by (induction pre) simp_all

lemma shape_cases [case_names none start_only no_end full]:
  fixes L :: "string list"
  obtains
    (none) "start_index L = None" "\<forall>l\<in>set L. \<not> str_in ''BT\<newline>'' l"
  | (start_only) pre sl where "L = pre @ [sl]"
      "start_index L = Some (length pre)" "end_index L = None"
      "\<forall>l\<in>set pre. \<not> str_in ''BT\<newline>'' l" "str_in ''BT\<newline>'' sl"
  | (no_end) pre sl c span where "L = pre @ sl # c # span"
      "start_index L = Some (length pre)" "end_index L = None"
      "\<forall>l\<in>set pre. \<not> str_in ''BT\<newline>'' l" "str_in ''BT\<newline>'' sl"
      "\<forall>l\<in>set span. \<not> str_in ''BT\<newline>'' l"
  | (full) pre sl c span e post where "L = pre @ sl # c # span @ e # post"
      "start_index L = Some (length pre)" "end_index L = Some (length pre + 2 + length span)"
      "\<forall>l\<in>set pre. \<not> str_in ''BT\<newline>'' l" "str_in ''BT\<newline>'' sl"
      "\<forall>l\<in>set span. \<not> str_in ''BT\<newline>'' l" "str_in ''BT\<newline>'' e"
proof (cases "\<exists>l\<in>set L. str_in ''BT\<newline>'' l")
  case False
  then have "start_index L = None"
    by (simp add: start_index_def first_index_None)
  with False show ?thesis by (intro none) simp_all
next
  case True
  from split_list_first_prop [OF this]
  obtain pre sl rest where L: "L = pre @ sl # rest" and sl: "str_in ''BT\<newline>'' sl"
    and pre: "\<forall>l\<in>set pre. \<not> str_in ''BT\<newline>'' l"
    by blast
  have start: "start_index L = Some (length pre)"
    using pre sl by (simp add: start_index_def L first_index_hit)
  show ?thesis
  proof (cases rest)
    case Nil
    have "end_index L = None"
      by (simp add: end_index_def start) (simp add: L Nil)
    with L Nil start pre sl show ?thesis by (intro start_only) simp_all
  next
    case (Cons c R)
    have dropR: "drop (Suc (Suc (length pre))) L = R"
      by (simp add: L Cons)
    show ?thesis
    proof (cases "\<exists>l\<in>set R. str_in ''BT\<newline>'' l")
      case False
      then have "end_index L = None"
        by (simp add: end_index_def start dropR first_index_None)
      with L Cons start pre sl False show ?thesis by (intro no_end [of pre sl c R]) simp_all
    next
      case True
      from split_list_first_prop [OF this]
      obtain span e post where R: "R = span @ e # post" and e: "str_in ''BT\<newline>'' e"
        and span: "\<forall>l\<in>set span. \<not> str_in ''BT\<newline>'' l"
        by blast
      have "end_index L = Some (length pre + 2 + length span)"
        using span e by (simp add: end_index_def start dropR R first_index_hit)
      with L Cons R start pre sl span e show ?thesis
        by (intro full [of pre sl c span e post]) simp_all
    qed
  qed
qed

lemma nth_in_shape:
  "i < length pre \<Longrightarrow> (pre @ rest) ! i = pre ! i"
  "(pre @ sl # rest) ! length pre = sl"
  "(pre @ sl # c # rest) ! Suc (length pre) = c"
  "j < length span \<Longrightarrow> (pre @ sl # c # span @ rest) ! (length pre + 2 + j) = span ! j"
  "(pre @ sl # c # span @ e # post) ! (length pre + 2 + length span) = e"
  "(pre @ sl # c # span @ e # post) ! (length pre + 2 + length span + Suc k) = post ! k"
  by (simp_all add: nth_append)

lemma compose_nth:
  "\<exists>big. \<forall>i<length L. calculate_digest L cot ! i =
     (if in_span L i then subst_remarks cot (L ! i)
      else if after_end L i then fill_digest big (L ! i)
      else L ! i)"
proof (cases L rule: shape_cases)
  case none
  then show ?thesis
    by (simp add: compose_no_start in_span_def after_end_def end_index_def)
next
  case (start_only pre sl)
  have "calculate_digest L cot = L"
    unfolding start_only(1) using start_only(4,5) by (rule compose_start_only)
  moreover have "\<not> in_span L i" if "i < length L" for i
    using that start_only(1,2,3) by (simp add: in_span_def)
  ultimately show ?thesis
    using start_only(3) by (simp add: after_end_def)
next
  case (no_end pre sl c span)
  have out: "calculate_digest L cot = pre @ sl # c # map (subst_remarks cot) span @ []"
    unfolding no_end(1) using compose_no_end [OF no_end(4,5,6)] by simp
  have Onth: "calculate_digest L cot ! n = (pre @ sl # c # map (subst_remarks cot) span @ []) ! n" for n
    by (simp only: out)
  have Lnth: "L ! n = (pre @ sl # c # span @ []) ! n" for n
    using no_end(1) by simp
  have span_iff: "in_span L i \<longleftrightarrow> length pre + 1 < i" for i
    using no_end(2,3) by (simp add: in_span_def)
  have "calculate_digest L cot ! i =
     (if in_span L i then subst_remarks cot (L ! i) else L ! i)" if "i < length L" for i
  proof -
    have "i < length pre \<or> i = length pre \<or> i = Suc (length pre)
          \<or> (\<exists>j<length span. i = length pre + 2 + j)"
    proof (cases "i < length pre + 2")
      case True
      then show ?thesis by arith
    next
      case False
      then have "i = length pre + 2 + (i - (length pre + 2))" by simp
      moreover have "i - (length pre + 2) < length span"
        using that no_end(1) False by simp
      ultimately show ?thesis by blast
    qed
    then consider "i < length pre" | "i = length pre" | "i = Suc (length pre)"
      | j where "i = length pre + 2 + j" "j < length span"
      by blast
    then show ?thesis
    proof cases
      case 1
      then have "calculate_digest L cot ! i = pre ! i" "L ! i = pre ! i"
        by (simp_all add: Onth Lnth nth_append)
      with 1 show ?thesis by (simp add: span_iff)
    next
      case 2
      then have "calculate_digest L cot ! i = sl" "L ! i = sl"
        by (simp_all add: Onth Lnth nth_append)
      with 2 show ?thesis by (simp add: span_iff)
    next
      case 3
      then have "calculate_digest L cot ! i = c" "L ! i = c"
        by (simp_all add: Onth Lnth nth_append)
      with 3 show ?thesis by (simp add: span_iff)
    next
      case 4
      then have "calculate_digest L cot ! i = map (subst_remarks cot) span ! j" "L ! i = span ! j"
        by (simp_all add: Onth Lnth nth_append)
      with 4 show ?thesis by (simp add: span_iff)
    qed
  qed
  then show ?thesis
    using no_end(3) by (simp add: after_end_def)
next
  case (full pre sl c span e post)
  let ?big = "canonical cot span"
  let ?span' = "map (subst_remarks cot) span"
  let ?post' = "map (fill_digest ?big) post"
  have out: "calculate_digest L cot = pre @ sl # c # ?span' @ e # ?post'"
    unfolding full(1) using full(4,5,6,7) by (rule compose_full)
  have span_iff: "in_span L i \<longleftrightarrow> length pre + 1 < i \<and> i < length pre + 2 + length span" for i
    using full(2,3) by (simp add: in_span_def)
  have after_iff: "after_end L i \<longleftrightarrow> length pre + 2 + length span < i" for i
    using full(3) by (simp add: after_end_def)
  have Onth: "calculate_digest L cot ! n = (pre @ sl # c # ?span' @ e # ?post') ! n" for n
    by (simp only: out)
  have Lnth: "L ! n = (pre @ sl # c # span @ e # post) ! n" for n
    using full(1) by simp
  have "calculate_digest L cot ! i =
     (if in_span L i then subst_remarks cot (L ! i)
      else if after_end L i then fill_digest ?big (L ! i)
      else L ! i)" if "i < length L" for i
  proof -
    have "i < length pre \<or> i = length pre \<or> i = Suc (length pre)
          \<or> (\<exists>j<length span. i = length pre + 2 + j)
          \<or> i = length pre + 2 + length span
          \<or> (\<exists>k<length post. i = length pre + 2 + length span + Suc k)"
    proof (cases "i < length pre + 2")
      case True
      then show ?thesis by arith
    next
      case False
      note far = this
      show ?thesis
      proof (cases "i \<le> length pre + 2 + length span")
        case True
        with far have "i = length pre + 2 + (i - (length pre + 2))" by simp
        moreover have "i - (length pre + 2) < length span \<or> i = length pre + 2 + length span"
          using True far by arith
        ultimately show ?thesis by blast
      next
        case False
        then have "i = length pre + 2 + length span + Suc (i - (length pre + 2 + length span + 1))"
          by simp
        moreover have "i - (length pre + 2 + length span + 1) < length post"
          using that full(1) False by simp
        ultimately show ?thesis by blast
      qed
    qed
    then consider "i < length pre" | "i = length pre" | "i = Suc (length pre)"
      | j where "i = length pre + 2 + j" "j < length span"
      | "i = length pre + 2 + length span"
      | k where "i = length pre + 2 + length span + Suc k" "k < length post"
      by blast
    then show ?thesis
    proof cases
      case 1
      then have "calculate_digest L cot ! i = pre ! i" "L ! i = pre ! i"
        by (simp_all add: Onth Lnth nth_append)
      with 1 show ?thesis by (simp add: span_iff after_iff)
    next
      case 2
      then have "calculate_digest L cot ! i = sl" "L ! i = sl"
        by (simp_all add: Onth Lnth nth_append)
      with 2 show ?thesis by (simp add: span_iff after_iff)
    next
      case 3
      then have "calculate_digest L cot ! i = c" "L ! i = c"
        by (simp_all add: Onth Lnth nth_append)
      with 3 show ?thesis by (simp add: span_iff after_iff)
    next
      case 4
      then have "calculate_digest L cot ! i = ?span' ! j" "L ! i = span ! j"
        by (simp_all add: Onth Lnth nth_append)
      with 4 show ?thesis by (simp add: span_iff after_iff)
    next
      case 5
      then have "calculate_digest L cot ! i = e" "L ! i = e"
        by (simp_all add: Onth Lnth nth_append)
      with 5 show ?thesis by (simp add: span_iff after_iff)
    next
      case 6
      then have "calculate_digest L cot ! i = ?post' ! k" "L ! i = post ! k"
        by (simp_all add: Onth Lnth nth_append)
      with 6 show ?thesis by (simp add: span_iff after_iff)
    qed
  qed
  then show ?thesis by blast
qed

lemma subst_remarks_idem: "subst_remarks cot (subst_remarks cot l) = subst_remarks cot l"
  by (simp add: subst_remarks_def)

lemmas doc_eval = calculate_digest_def scan_line_def scan_init_def remarks_line_def
  digest_line_def replace_nl_def split_def isspace_def

lemmas event_eval = pd_event_1_def pd_event_2_def sa_event_1_def sa_event_2_def
  PD_EVENT_TYPE_def SA_EVENT_TYPE_def

section \<open>Evaluating the digest\<close>

lemma replicate_numeral: "replicate (numeral k) x = x # replicate (pred_numeral k) x"
  by (simp add: numeral_eq_Suc)

lemma chunks_numeral: "chunks (numeral k) n xs = take n xs # chunks (pred_numeral k) n (drop n xs)"
  by (simp add: numeral_eq_Suc)

lemma upt_0_numeral: "[0..<numeral n] = 0 # [Suc 0..<numeral n]"
  by (subst upt_rec) simp

lemma upt_1_numeral:
  "[Suc 0..<numeral n] = (if Suc 0 < numeral n then Suc 0 # [2..<numeral n] else [])"
  by (subst upt_rec) (simp add: numeral_2_eq_2)

lemmas md5_eval = md5_hex_upper_def upper_def upper_char_def hexdigest_def hex_digit_def md5_def
  md5_pad_def md5_init_def md5_block_def md5_rounds_def blocks_def
  md5_F_def md5_g_def md5_K_def md5_s_def add32_def not32_def
  rotl32_def le_bytes4_def le_bytes8_def utf8_def utf8_char_def
  replicate_numeral chunks_numeral upt_0_numeral upt_1_numeral

text \<open>The digest of the empty text, as in the test suite of RFC 1321.\<close>

lemma md5_empty: "md5_hex_upper [] = ''D41D8CD98F00B204E9800998ECF8427E''"
  by (simp add: md5_eval)

lemma md5_remarks_event:
  "md5_hex_upper ''GENTEXT/REMARKS/<event/>//'' = ''7E2D763B8A05FD4502731E24AB94D003''"
  by (simp add: md5_eval)

lemma md5_remarks_event_space:
  "md5_hex_upper ''GENTEXT/REMARKS/<event/>// '' = ''DF748A37E630FC49A7F207DDE78F5073''"
  by (simp add: md5_eval)

lemma md5_remarks_BT:
  "md5_hex_upper ''GENTEXT/REMARKS/BT //'' = ''2C54A6599D4743ADA655F6B9EA6B0FCA''"
  by (simp add: md5_eval)

section \<open>The digest of the canonical string\<close>

lemma map_subst_no_placeholder:
  "\<forall>l\<in>set xs. \<not> str_in ''GENTEXT/REMARKS/-//'' l \<Longrightarrow> map (subst_remarks cot) xs = xs"
  by (induction xs) (simp_all add: subst_remarks_def)

lemma map_fill_no_digest:
  "\<forall>l\<in>set xs. \<not> str_in ''[DIGEST:'' l \<Longrightarrow> map (fill_digest big) xs = xs"
  by (induction xs) (simp_all add: fill_digest_def)

text \<open>
  Claim C1, as amended.  For a template made of lines without sentinel, a start
  sentinel, a classifier line, a span with exactly one blank-remarks line, an end
  sentinel, and after it exactly one digest-placeholder line, composition with the
  payload rewrites the remarks line and the digest line and nothing else.  The digest
  line becomes \<open>[DIGEST:\<close>, the upper-case hexadecimal MD5 of the canonical string,
  and \<open>]\<close>.  The canonical string is the concatenation of the span lines, with the
  payload substituted and each newline replaced by a space, after
  \<^verbatim>\<open>' '.join(s.split())\<close>: runs of whitespace become single spaces and whitespace at
  both ends is removed.
\<close>

theorem digest_of_canonical_string:
  assumes "\<forall>l\<in>set pre. \<not> str_in ''BT\<newline>'' l" and "str_in ''BT\<newline>'' s"
    and "\<forall>l\<in>set (sp1 @ r # sp2). \<not> str_in ''BT\<newline>'' l" and "str_in ''BT\<newline>'' e"
    and "str_in ''GENTEXT/REMARKS/-//'' r"
    and "\<forall>l\<in>set (sp1 @ sp2). \<not> str_in ''GENTEXT/REMARKS/-//'' l"
    and "str_in ''[DIGEST:'' d"
    and "\<forall>l\<in>set (po1 @ po2). \<not> str_in ''[DIGEST:'' l"
  shows "calculate_digest (pre @ s # c # sp1 @ r # sp2 @ e # po1 @ d # po2) cotString =
     pre @ s # c # sp1 @ (''GENTEXT/REMARKS/'' @ cotString @ ''//\<newline>'') # sp2 @ e # po1 @
     (''[DIGEST:'' @
        md5_hex_upper
          (join (split (concat (map replace_nl
             (sp1 @ (''GENTEXT/REMARKS/'' @ cotString @ ''//\<newline>'') # sp2))))) @
      '']\<newline>'') # po2"
proof -
  let ?span = "sp1 @ r # sp2"
  let ?post = "po1 @ d # po2"
  have span': "map (subst_remarks cotString) ?span = sp1 @ remarks_line cotString # sp2"
    using assms(5,6) by (simp add: map_subst_no_placeholder subst_remarks_def)
  have "canonical cotString ?span =
        join (split (concat (map replace_nl (map (subst_remarks cotString) ?span))))"
    unfolding canonical_def by (simp only: map_map comp_def)
  then have can: "canonical cotString ?span =
        join (split (concat (map replace_nl (sp1 @ remarks_line cotString # sp2))))"
    by (simp only: span')
  have post': "map (fill_digest big) ?post = po1 @ digest_line (md5_hex_upper big) # po2" for big
    using assms(7,8) by (simp add: map_fill_no_digest fill_digest_def)
  have "calculate_digest (pre @ s # c # ?span @ e # ?post) cotString =
        pre @ s # c # map (subst_remarks cotString) ?span @ e #
        map (fill_digest (canonical cotString ?span)) ?post"
    using assms(1,2,3,4) by (rule compose_full)
  then have "calculate_digest (pre @ s # c # ?span @ e # ?post) cotString =
        pre @ s # c # (sp1 @ remarks_line cotString # sp2) @ e #
        (po1 @ digest_line (md5_hex_upper
           (join (split (concat (map replace_nl (sp1 @ remarks_line cotString # sp2)))))) # po2)"
    by (simp only: span' post' can)
  then show ?thesis
    by (simp add: remarks_line_def digest_line_def)
qed

theorem digest_of_canonical_string_witness:
  "calculate_digest doc_plain ''<event/>'' =
     [''SUBJ/COTXML//\<newline>'', ''BT\<newline>'', ''UNCLAS\<newline>'', ''GENTEXT/REMARKS/<event/>//\<newline>'', ''BT\<newline>'',
      ''[DIGEST:7E2D763B8A05FD4502731E24AB94D003]\<newline>'']"
proof -
  have "calculate_digest
          ([''SUBJ/COTXML//\<newline>''] @ ''BT\<newline>'' # ''UNCLAS\<newline>'' # [] @ ''GENTEXT/REMARKS/-//\<newline>'' # [] @
           ''BT\<newline>'' # [] @ ''[DIGEST:]\<newline>'' # []) ''<event/>'' =
        [''SUBJ/COTXML//\<newline>''] @ ''BT\<newline>'' # ''UNCLAS\<newline>'' # [] @
        (''GENTEXT/REMARKS/'' @ ''<event/>'' @ ''//\<newline>'') # [] @ ''BT\<newline>'' # [] @
        (''[DIGEST:'' @
           md5_hex_upper
             (join (split (concat (map replace_nl
                ([] @ (''GENTEXT/REMARKS/'' @ ''<event/>'' @ ''//\<newline>'') # []))))) @
         '']\<newline>'') # []"
    by (rule digest_of_canonical_string) simp_all
  then show ?thesis
    by (simp add: doc_plain_def replace_nl_def split_def isspace_def md5_remarks_event)
qed

text \<open>
  The claim as it was stated fails: collapsing runs of whitespace keeps the space that
  stands for the last newline of the span, the program removes it, and the two digests
  differ.
\<close>

theorem claimed_canonical_counterexample:
  "claimed_canonical [''GENTEXT/REMARKS/<event/>//\<newline>''] = ''GENTEXT/REMARKS/<event/>// '' \<and>
   calculate_digest doc_plain ''<event/>'' ! 5 \<noteq>
     ''[DIGEST:'' @ md5_hex_upper (claimed_canonical [''GENTEXT/REMARKS/<event/>//\<newline>'']) @ '']\<newline>''"
proof -
  have c: "claimed_canonical [''GENTEXT/REMARKS/<event/>//\<newline>''] = ''GENTEXT/REMARKS/<event/>// ''"
    by (simp add: claimed_canonical_def replace_nl_def isspace_def)
  have "calculate_digest doc_plain ''<event/>'' ! 5 = ''[DIGEST:7E2D763B8A05FD4502731E24AB94D003]\<newline>''"
    by (simp add: doc_plain_def doc_eval md5_remarks_event)
  then show ?thesis
    by (simp add: c md5_remarks_event_space)
qed

section \<open>The mailbox\<close>

text \<open>
  Claim C2, as amended.  In tak2mm.py and tak2msc-nogui.py a deposit never changes a
  slot that holds an event: the occupied slot keeps its content, and an event is
  stored in the slot of its category when that slot is empty, so that at most one event
  is pending in each category.  In tak2msc.py the listener stores every classified
  event, whatever the variable held.
\<close>

theorem deposit_only_into_empty_slot:
  "(pointDropper_event mb \<noteq> [] \<longrightarrow>
      pointDropper_event (deposit xml1 mb) = pointDropper_event mb) \<and>
   (myPosition_event mb \<noteq> [] \<longrightarrow>
      myPosition_event (deposit xml1 mb) = myPosition_event mb) \<and>
   (str_in PD_EVENT_TYPE xml1 \<and> pointDropper_event mb = [] \<longrightarrow>
      pointDropper_event (deposit xml1 mb) = xml1) \<and>
   (\<not> str_in PD_EVENT_TYPE xml1 \<and> str_in SA_EVENT_TYPE xml1 \<and> myPosition_event mb = [] \<longrightarrow>
      myPosition_event (deposit xml1 mb) = xml1) \<and>
   (str_in PD_EVENT_TYPE xml1 \<longrightarrow> pntDropper_var (deposit_gui xml1 g) = xml1) \<and>
   (\<not> str_in PD_EVENT_TYPE xml1 \<and> str_in SA_EVENT_TYPE xml1 \<longrightarrow>
      myPosition_var (deposit_gui xml1 g) = xml1)"
  by (simp add: deposit_def deposit_gui_def setStatus_def)

theorem deposit_only_into_empty_slot_witness:
  "pointDropper_event (deposit pd_event_2 \<lparr>myPosition_event = sa_event_1, pointDropper_event = pd_event_1\<rparr>)
     = pd_event_1 \<and>
   myPosition_event (deposit sa_event_2 \<lparr>myPosition_event = sa_event_1, pointDropper_event = pd_event_1\<rparr>)
     = sa_event_1 \<and>
   pointDropper_event (deposit pd_event_1 mailbox_empty) = pd_event_1 \<and>
   myPosition_event (deposit sa_event_1 mailbox_empty) = sa_event_1 \<and>
   pntDropper_var (deposit_gui pd_event_1 gui_init) = pd_event_1 \<and>
   myPosition_var (deposit_gui sa_event_1 gui_init) = sa_event_1"
proof -
  let ?full = "\<lparr>myPosition_event = sa_event_1, pointDropper_event = pd_event_1\<rparr>"
  have occupied: "pointDropper_event ?full \<noteq> []" "myPosition_event ?full \<noteq> []"
    by (simp_all add: event_eval)
  have empty: "pointDropper_event mailbox_empty = []" "myPosition_event mailbox_empty = []"
    by (simp_all add: mailbox_empty_def)
  have pd: "str_in PD_EVENT_TYPE pd_event_1"
    by (simp add: event_eval)
  have sa: "\<not> str_in PD_EVENT_TYPE sa_event_1" "str_in SA_EVENT_TYPE sa_event_1"
    by (simp_all add: event_eval)
  from deposit_only_into_empty_slot [of ?full pd_event_2] occupied
  have 1: "pointDropper_event (deposit pd_event_2 ?full) = pd_event_1" by simp
  from deposit_only_into_empty_slot [of ?full sa_event_2] occupied
  have 2: "myPosition_event (deposit sa_event_2 ?full) = sa_event_1" by simp
  from deposit_only_into_empty_slot [of mailbox_empty pd_event_1 gui_init] empty pd
  have 3: "pointDropper_event (deposit pd_event_1 mailbox_empty) = pd_event_1"
    and 5: "pntDropper_var (deposit_gui pd_event_1 gui_init) = pd_event_1" by blast+
  from deposit_only_into_empty_slot [of mailbox_empty sa_event_1 gui_init] empty sa
  have 4: "myPosition_event (deposit sa_event_1 mailbox_empty) = sa_event_1"
    and 6: "myPosition_var (deposit_gui sa_event_1 gui_init) = sa_event_1" by blast+
  from 1 2 3 4 5 6 show ?thesis by simp
qed

text \<open>
  The claim as it was stated fails in tak2msc.py: the variable holds an event, the
  next event of the category is stored all the same, and the first is lost.
\<close>

theorem deposit_overwrites_counterexample:
  "pntDropper_var (deposit_gui pd_event_1 gui_init) = pd_event_1 \<and> pd_event_1 \<noteq> [] \<and>
   pntDropper_var (deposit_gui pd_event_2 (deposit_gui pd_event_1 gui_init)) = pd_event_2 \<and>
   pd_event_2 \<noteq> pd_event_1"
  by (simp add: deposit_gui_def setStatus_def event_eval)

section \<open>Which event is delivered\<close>

lemma marker_nonempty:
  "str_in PD_EVENT_TYPE x \<Longrightarrow> x \<noteq> []" "str_in SA_EVENT_TYPE x \<Longrightarrow> x \<noteq> []"
  by (auto simp: PD_EVENT_TYPE_def SA_EVENT_TYPE_def)

lemma later_point_drops_dropped:
  "pointDropper_event mb \<noteq> [] \<Longrightarrow>
   \<forall>x\<in>set xs. str_in PD_EVENT_TYPE x \<and> \<not> str_in SA_EVENT_TYPE x \<Longrightarrow>
   fold deposit xs mb = mb"
  by (induction xs) (simp_all add: deposit_def)

lemma later_positions_dropped:
  "myPosition_event mb \<noteq> [] \<Longrightarrow>
   \<forall>x\<in>set xs. \<not> str_in PD_EVENT_TYPE x \<and> str_in SA_EVENT_TYPE x \<Longrightarrow>
   fold deposit xs mb = mb"
  by (induction xs) (simp_all add: deposit_def)

lemma deliveries_empty:
  "myPosition_event mb = [] \<Longrightarrow> pointDropper_event mb = [] \<Longrightarrow> deliveries n mb = []"
  by (induction n) (simp_all add: dispatch_def)

lemma deliveries_point_only:
  "myPosition_event mb = [] \<Longrightarrow> pointDropper_event mb \<noteq> [] \<Longrightarrow>
   deliveries (Suc n) mb = [pointDropper_event mb]"
  by (simp add: dispatch_def deliveries_empty)

lemma deliveries_position_only:
  "myPosition_event mb \<noteq> [] \<Longrightarrow> pointDropper_event mb = [] \<Longrightarrow>
   deliveries (Suc n) mb = [myPosition_event mb]"
  by (simp add: dispatch_def deliveries_empty)

lemma deliveries_both:
  assumes "myPosition_event mb \<noteq> []" and "pointDropper_event mb \<noteq> []"
  shows "deliveries (Suc (Suc n)) mb = [myPosition_event mb, pointDropper_event mb]"
proof -
  have "deliveries (Suc (Suc n)) mb =
        myPosition_event mb # deliveries (Suc n) (mb\<lparr>myPosition_event := []\<rparr>)"
    using assms(1) by (simp add: dispatch_def)
  moreover have "deliveries (Suc n) (mb\<lparr>myPosition_event := []\<rparr>) = [pointDropper_event mb]"
    using deliveries_point_only [of "mb\<lparr>myPosition_event := []\<rparr>" n] assms(2) by simp
  ultimately show ?thesis by (simp only:)
qed

text \<open>
  Claim C3, as amended.  For a sequence of deposits of one category with no consume in
  between.  In tak2msc.py the message that \<^verbatim>\<open>sendToMsgMachine\<close> takes for the category,
  once both call signs are chosen, is the most recent deposit.  In tak2mm.py, for
  events that carry the marker of that category only and a slot that is empty before
  the sequence, the mailbox after the sequence is the mailbox before it with the
  earliest deposit in the slot: every later deposit is dropped.  The dispatcher then
  delivers the earliest deposit and, when the slot of the other category holds an
  event, that event, a position event first; it delivers nothing else.
\<close>

theorem delivered_event:
  "(xs \<noteq> [] \<and> (\<forall>x\<in>set xs. str_in PD_EVENT_TYPE x) \<longrightarrow>
      sendToMsgMachine_message a ''point'' (fold deposit_gui xs g) =
        (if fromAddress_var a = [] \<or> toAddress_var a = [] then None else Some (last xs))) \<and>
   (xs \<noteq> [] \<and> (\<forall>x\<in>set xs. \<not> str_in PD_EVENT_TYPE x \<and> str_in SA_EVENT_TYPE x) \<longrightarrow>
      sendToMsgMachine_message a ''position'' (fold deposit_gui xs g) =
        (if fromAddress_var a = [] \<or> toAddress_var a = [] then None else Some (last xs))) \<and>
   (xs \<noteq> [] \<and> (\<forall>x\<in>set xs. str_in PD_EVENT_TYPE x \<and> \<not> str_in SA_EVENT_TYPE x) \<and>
    pointDropper_event mb = [] \<longrightarrow>
      fold deposit xs mb = mb\<lparr>pointDropper_event := hd xs\<rparr> \<and>
      deliveries (Suc (Suc n)) (fold deposit xs mb) =
        (if myPosition_event mb = [] then [hd xs] else [myPosition_event mb, hd xs])) \<and>
   (xs \<noteq> [] \<and> (\<forall>x\<in>set xs. \<not> str_in PD_EVENT_TYPE x \<and> str_in SA_EVENT_TYPE x) \<and>
    myPosition_event mb = [] \<longrightarrow>
      fold deposit xs mb = mb\<lparr>myPosition_event := hd xs\<rparr> \<and>
      deliveries (Suc (Suc n)) (fold deposit xs mb) =
        (if pointDropper_event mb = [] then [hd xs] else [hd xs, pointDropper_event mb]))"
proof (cases xs)
  case Nil
  then show ?thesis by simp
next
  case (Cons x xs')
  have "xs \<noteq> []"
    using Cons by simp
  then obtain ys y where snoc: "xs = ys @ [y]"
    by (cases xs rule: rev_cases) auto
  have gui_point: "sendToMsgMachine_message a ''point'' (fold deposit_gui xs g) =
        (if fromAddress_var a = [] \<or> toAddress_var a = [] then None else Some (last xs))"
    if "\<forall>x\<in>set xs. str_in PD_EVENT_TYPE x"
    using that by (simp add: snoc deposit_gui_def setStatus_def sendToMsgMachine_message_def)
  have gui_position: "sendToMsgMachine_message a ''position'' (fold deposit_gui xs g) =
        (if fromAddress_var a = [] \<or> toAddress_var a = [] then None else Some (last xs))"
    if "\<forall>x\<in>set xs. \<not> str_in PD_EVENT_TYPE x \<and> str_in SA_EVENT_TYPE x"
    using that by (simp add: snoc deposit_gui_def setStatus_def sendToMsgMachine_message_def)
  have mm_point: "fold deposit xs mb = mb\<lparr>pointDropper_event := hd xs\<rparr>"
    if "\<forall>x\<in>set xs. str_in PD_EVENT_TYPE x \<and> \<not> str_in SA_EVENT_TYPE x"
      "pointDropper_event mb = []"
  proof -
    have first: "deposit x mb = mb\<lparr>pointDropper_event := x\<rparr>" and "x \<noteq> []"
      using that Cons by (simp_all add: deposit_def marker_nonempty)
    then have "fold deposit xs' (deposit x mb) = deposit x mb"
      using that(1) Cons by (intro later_point_drops_dropped) simp_all
    with first show ?thesis by (simp add: Cons)
  qed
  have mm_position: "fold deposit xs mb = mb\<lparr>myPosition_event := hd xs\<rparr>"
    if "\<forall>x\<in>set xs. \<not> str_in PD_EVENT_TYPE x \<and> str_in SA_EVENT_TYPE x"
      "myPosition_event mb = []"
  proof -
    have first: "deposit x mb = mb\<lparr>myPosition_event := x\<rparr>" and "x \<noteq> []"
      using that Cons by (simp_all add: deposit_def marker_nonempty)
    then have "fold deposit xs' (deposit x mb) = deposit x mb"
      using that(1) Cons by (intro later_positions_dropped) simp_all
    with first show ?thesis by (simp add: Cons)
  qed
  have hd_nonempty: "hd xs \<noteq> []"
    if "\<forall>x\<in>set xs. str_in PD_EVENT_TYPE x \<or> str_in SA_EVENT_TYPE x"
    using that Cons marker_nonempty by auto
  have deliver_point: "deliveries (Suc (Suc n)) (fold deposit xs mb) =
        (if myPosition_event mb = [] then [hd xs] else [myPosition_event mb, hd xs])"
    if "\<forall>x\<in>set xs. str_in PD_EVENT_TYPE x \<and> \<not> str_in SA_EVENT_TYPE x"
      "pointDropper_event mb = []"
  proof -
    let ?m = "mb\<lparr>pointDropper_event := hd xs\<rparr>"
    have after: "fold deposit xs mb = ?m"
      using that by (rule mm_point)
    have slot: "pointDropper_event ?m \<noteq> []"
      using hd_nonempty that(1) by simp
    show ?thesis
    proof (cases "myPosition_event mb = []")
      case True
      then have "deliveries (Suc (Suc n)) ?m = [pointDropper_event ?m]"
        using slot by (intro deliveries_point_only) simp_all
      with True show ?thesis by (simp only: after) simp
    next
      case False
      then have "deliveries (Suc (Suc n)) ?m = [myPosition_event ?m, pointDropper_event ?m]"
        using slot by (intro deliveries_both) simp_all
      with False show ?thesis by (simp only: after) simp
    qed
  qed
  have deliver_position: "deliveries (Suc (Suc n)) (fold deposit xs mb) =
        (if pointDropper_event mb = [] then [hd xs] else [hd xs, pointDropper_event mb])"
    if "\<forall>x\<in>set xs. \<not> str_in PD_EVENT_TYPE x \<and> str_in SA_EVENT_TYPE x"
      "myPosition_event mb = []"
  proof -
    let ?m = "mb\<lparr>myPosition_event := hd xs\<rparr>"
    have after: "fold deposit xs mb = ?m"
      using that by (rule mm_position)
    have slot: "myPosition_event ?m \<noteq> []"
      using hd_nonempty that(1) by simp
    show ?thesis
    proof (cases "pointDropper_event mb = []")
      case True
      then have "deliveries (Suc (Suc n)) ?m = [myPosition_event ?m]"
        using slot by (intro deliveries_position_only) simp_all
      with True show ?thesis by (simp only: after) simp
    next
      case False
      then have "deliveries (Suc (Suc n)) ?m = [myPosition_event ?m, pointDropper_event ?m]"
        using slot by (intro deliveries_both) simp_all
      with False show ?thesis by (simp only: after) simp
    qed
  qed
  show ?thesis
    using gui_point gui_position mm_point mm_position deliver_point deliver_position by blast
qed

theorem delivered_event_witness:
  "sendToMsgMachine_message addressing_set ''point'' (fold deposit_gui [pd_event_1, pd_event_2] gui_init)
     = Some pd_event_2 \<and>
   sendToMsgMachine_message addressing_unset ''point'' (fold deposit_gui [pd_event_1, pd_event_2] gui_init)
     = None \<and>
   sendToMsgMachine_message addressing_set ''position'' (fold deposit_gui [sa_event_1, sa_event_2] gui_init)
     = Some sa_event_2 \<and>
   fold deposit [pd_event_1, pd_event_2] mailbox_empty = mailbox_empty\<lparr>pointDropper_event := pd_event_1\<rparr> \<and>
   deliveries 2 (fold deposit [pd_event_1, pd_event_2] mailbox_empty) = [pd_event_1] \<and>
   fold deposit [sa_event_1, sa_event_2] (mailbox_empty\<lparr>pointDropper_event := pd_event_1\<rparr>)
     = \<lparr>myPosition_event = sa_event_1, pointDropper_event = pd_event_1\<rparr> \<and>
   deliveries 2 (fold deposit [sa_event_1, sa_event_2] (mailbox_empty\<lparr>pointDropper_event := pd_event_1\<rparr>))
     = [sa_event_1, pd_event_1]"
proof -
  let ?held = "mailbox_empty\<lparr>pointDropper_event := pd_event_1\<rparr>"
  have pd: "[pd_event_1, pd_event_2] \<noteq> []"
    "\<forall>x\<in>set [pd_event_1, pd_event_2]. str_in PD_EVENT_TYPE x"
    "\<forall>x\<in>set [pd_event_1, pd_event_2]. str_in PD_EVENT_TYPE x \<and> \<not> str_in SA_EVENT_TYPE x"
    by (simp_all add: event_eval)
  have sa: "[sa_event_1, sa_event_2] \<noteq> []"
    "\<forall>x\<in>set [sa_event_1, sa_event_2]. \<not> str_in PD_EVENT_TYPE x \<and> str_in SA_EVENT_TYPE x"
    by (simp_all add: event_eval)
  have empty: "pointDropper_event mailbox_empty = []" "myPosition_event mailbox_empty = []"
    "myPosition_event ?held = []" "pointDropper_event ?held \<noteq> []"
    by (simp_all add: mailbox_empty_def event_eval)
  have two: "Suc (Suc 0) = 2" by simp
  from delivered_event [of "[pd_event_1, pd_event_2]" addressing_set gui_init mailbox_empty 0] pd
  have 1: "sendToMsgMachine_message addressing_set ''point''
             (fold deposit_gui [pd_event_1, pd_event_2] gui_init) = Some pd_event_2"
    by (simp add: addressing_set_def)
  from delivered_event [of "[pd_event_1, pd_event_2]" addressing_unset gui_init mailbox_empty 0] pd
  have 2: "sendToMsgMachine_message addressing_unset ''point''
             (fold deposit_gui [pd_event_1, pd_event_2] gui_init) = None"
    by (simp add: addressing_unset_def)
  from delivered_event [of "[sa_event_1, sa_event_2]" addressing_set gui_init ?held 0] sa
  have 3: "sendToMsgMachine_message addressing_set ''position''
             (fold deposit_gui [sa_event_1, sa_event_2] gui_init) = Some sa_event_2"
    by (simp add: addressing_set_def)
  from delivered_event [of "[pd_event_1, pd_event_2]" addressing_set gui_init mailbox_empty 0]
    pd empty(1,2)
  have 4: "fold deposit [pd_event_1, pd_event_2] mailbox_empty =
             mailbox_empty\<lparr>pointDropper_event := hd [pd_event_1, pd_event_2]\<rparr>"
    and 5: "deliveries (Suc (Suc 0)) (fold deposit [pd_event_1, pd_event_2] mailbox_empty) =
             (if myPosition_event mailbox_empty = [] then [hd [pd_event_1, pd_event_2]]
              else [myPosition_event mailbox_empty, hd [pd_event_1, pd_event_2]])"
    by blast+
  from delivered_event [of "[sa_event_1, sa_event_2]" addressing_set gui_init ?held 0]
    sa empty(3,4)
  have 6: "fold deposit [sa_event_1, sa_event_2] ?held =
             ?held\<lparr>myPosition_event := hd [sa_event_1, sa_event_2]\<rparr>"
    and 7: "deliveries (Suc (Suc 0)) (fold deposit [sa_event_1, sa_event_2] ?held) =
             (if pointDropper_event ?held = [] then [hd [sa_event_1, sa_event_2]]
              else [hd [sa_event_1, sa_event_2], pointDropper_event ?held])"
    by blast+
  have held: "?held\<lparr>myPosition_event := sa_event_1\<rparr> =
              \<lparr>myPosition_event = sa_event_1, pointDropper_event = pd_event_1\<rparr>"
    by (simp add: mailbox_empty_def)
  have r5: "deliveries 2 (fold deposit [pd_event_1, pd_event_2] mailbox_empty) = [pd_event_1]"
    using 5 empty(2) by (simp only: two list.sel) simp
  have r7: "deliveries 2 (fold deposit [sa_event_1, sa_event_2] ?held) = [sa_event_1, pd_event_1]"
    using 7 empty(4) by (simp only: two list.sel) (simp add: mailbox_empty_def)
  have r4: "fold deposit [pd_event_1, pd_event_2] mailbox_empty =
            mailbox_empty\<lparr>pointDropper_event := pd_event_1\<rparr>"
    using 4 by (simp only: list.sel)
  have r6: "fold deposit [sa_event_1, sa_event_2] ?held =
            \<lparr>myPosition_event = sa_event_1, pointDropper_event = pd_event_1\<rparr>"
    using 6 by (simp only: list.sel held)
  from 1 2 3 r4 r5 r6 r7 show ?thesis
    by (intro conjI)
qed

text \<open>
  The claim as it was stated fails in tak2mm.py: of two point-drop events deposited in
  a row, the dispatcher delivers the first, not the most recent.
\<close>

theorem earliest_delivered_counterexample:
  "pointDropper_event (fold deposit [pd_event_1, pd_event_2] mailbox_empty) = pd_event_1 \<and>
   dispatch True (fold deposit [pd_event_1, pd_event_2] mailbox_empty) = Some (pd_event_1, mailbox_empty) \<and>
   pd_event_1 \<noteq> pd_event_2"
  by (simp add: deposit_def dispatch_def mailbox_empty_def event_eval)

section \<open>Exceptions in the listener threads\<close>

text \<open>
  Claim C4 does not hold of the program.  A recognized datagram of a single line makes
  \<^verbatim>\<open>xml[1]\<close> raise \<^verbatim>\<open>IndexError\<close> in the event listener, and a record with command
  \<open>data\<close> makes the control-channel listener of tak2mm.py read the undefined name
  \<^verbatim>\<open>COT_EVENT_HEADER\<close>; neither exception has a handler, so each ends its thread.
\<close>

theorem listener_threads_raise:
  \<open>cotXmlListener_recv ''<event version="2.0" type="a-f-G-U-C"/>'' mb = Inl IndexError \<and>
   cpListener_record tak2mm_globals ''data'' payload_data_from_cp data_from_cp = Inl NameError\<close>
  by (simp add: cotXmlListener_recv_def EVENT_HEADER_def split_on_def index_def
      cpListener_record_def name_lookup_def tak2mm_globals_def)

text \<open>Every recognized datagram without a newline does the same.\<close>

lemma split_on_acc_no_newline:
  "CHR ''\<newline>'' \<notin> set s \<Longrightarrow> split_on_acc ''\<newline>'' cur s = [cur @ s]"
  by (induction s arbitrary: cur) auto

lemma single_line_datagram_raises:
  assumes "str_in EVENT_HEADER data_string" and "CHR ''\<newline>'' \<notin> set data_string"
  shows "cotXmlListener_recv data_string mb = Inl IndexError"
  using assms
  by (simp add: cotXmlListener_recv_def split_on_def split_on_acc_no_newline index_def)

text \<open>With the constants of tak2cp.py the same record is handled.\<close>

lemma cpListener_record_tak2cp:
  \<open>cpListener_record tak2cp_globals ''data''
     ''GENTEXT/REMARKS/<event version="2.0" uid="x"/>//'' [] =
   Inr ''<?xml version="1.0" encoding="UTF-8" standalone="yes"?>\<newline><event version="2.0" uid="x"/>''\<close>
  by (simp add: cpListener_record_def name_lookup_def tak2cp_globals_def split_on_def index_def)

section \<open>Which lines are sentinels\<close>

lemma startswith_set: "startswith s sub \<Longrightarrow> set sub \<subseteq> set s"
  by (induction s sub rule: startswith.induct) auto

lemma str_in_set: "str_in sub s \<Longrightarrow> set sub \<subseteq> set s"
proof (induction s)
  case Nil
  then show ?case by simp
next
  case (Cons a s)
  from Cons.prems have "startswith (a # s) sub \<or> str_in sub s" by simp
  then show ?case
  proof
    assume "startswith (a # s) sub"
    then show ?thesis by (rule startswith_set)
  next
    assume "str_in sub s"
    then have "set sub \<subseteq> set s" by (rule Cons.IH)
    then show ?thesis by auto
  qed
qed

lemma startswith_BT_line:
  assumes "CHR ''\<newline>'' \<notin> set t"
  shows "startswith (t @ ''\<newline>'') ''BT\<newline>'' \<longleftrightarrow> t = ''BT''"
proof (cases t)
  case Nil
  then show ?thesis by simp
next
  case (Cons a t1)
  note t = this
  show ?thesis
  proof (cases t1)
    case Nil
    with t show ?thesis by simp
  next
    case (Cons b t2)
    note t1 = this
    show ?thesis
    proof (cases t2)
      case Nil
      with t t1 show ?thesis by auto
    next
      case (Cons d t3)
      with t t1 assms show ?thesis by auto
    qed
  qed
qed

lemma sentinel_suffix:
  "CHR ''\<newline>'' \<notin> set t \<Longrightarrow> str_in ''BT\<newline>'' (t @ ''\<newline>'') \<longleftrightarrow> (\<exists>u. t = u @ ''BT'')"
proof (induction t)
  case Nil
  show ?case by simp
next
  case (Cons a t)
  have ih: "str_in ''BT\<newline>'' (t @ ''\<newline>'') \<longleftrightarrow> (\<exists>u. t = u @ ''BT'')"
    using Cons by simp
  have sw: "startswith ((a # t) @ ''\<newline>'') ''BT\<newline>'' \<longleftrightarrow> a # t = ''BT''"
    using Cons.prems by (rule startswith_BT_line)
  have ex: "(\<exists>u. a # t = u @ ''BT'') \<longleftrightarrow> a # t = ''BT'' \<or> (\<exists>u. t = u @ ''BT'')"
    by (auto simp: Cons_eq_append_conv)
  have "str_in ''BT\<newline>'' ((a # t) @ ''\<newline>'') \<longleftrightarrow>
        startswith ((a # t) @ ''\<newline>'') ''BT\<newline>'' \<or> str_in ''BT\<newline>'' (t @ ''\<newline>'')"
    by simp
  with ih sw ex show ?case by simp
qed

text \<open>
  Claim C5, as amended.  \<^verbatim>\<open>calculate_digest\<close> takes as the start sentinel, and after
  the classifier as the end sentinel, any line whose text ends in \<open>BT\<close> right before
  the newline, whatever precedes \<open>BT\<close> on the line; a line without a newline is never
  a sentinel.
\<close>

theorem sentinel_is_line_ending_in_BT:
  assumes "CHR ''\<newline>'' \<notin> set t"
  shows "(\<not> startOfString st \<and> \<not> endOfString st \<longrightarrow>
            startOfString (fst (scan_line cotString st (t @ ''\<newline>''))) = (\<exists>u. t = u @ ''BT'')) \<and>
         (startOfString st \<and> \<not> endOfString st \<and> pastClassifier st \<longrightarrow>
            endOfString (fst (scan_line cotString st (t @ ''\<newline>''))) = (\<exists>u. t = u @ ''BT'')) \<and>
         (\<not> startOfString st \<and> \<not> endOfString st \<longrightarrow>
            \<not> startOfString (fst (scan_line cotString st t))) \<and>
         (startOfString st \<and> \<not> endOfString st \<and> pastClassifier st \<longrightarrow>
            \<not> endOfString (fst (scan_line cotString st t)))"
proof -
  have a: "str_in ''BT\<newline>'' (t @ ''\<newline>'') \<longleftrightarrow> (\<exists>u. t = u @ ''BT'')"
    using assms by (rule sentinel_suffix)
  have b: "\<not> str_in ''BT\<newline>'' t"
    using assms str_in_set [of "''BT\<newline>''" t] by auto
  show ?thesis
    unfolding a [symmetric] using b by (simp add: scan_line_def)
qed

theorem sentinel_is_line_ending_in_BT_witness:
  "CHR ''\<newline>'' \<notin> set ''DEBT'' \<and> \<not> startOfString scan_init \<and> \<not> endOfString scan_init \<and>
   startOfString (fst (scan_line ''<event/>'' scan_init ''DEBT\<newline>''))"
proof -
  have nl: "CHR ''\<newline>'' \<notin> set ''DEBT''" by simp
  have init: "\<not> startOfString scan_init" "\<not> endOfString scan_init"
    by (simp_all add: scan_init_def)
  have "\<exists>u. ''DEBT'' = u @ ''BT''"
    by (rule exI [of _ "''DE''"]) simp
  with sentinel_is_line_ending_in_BT [OF nl, of scan_init "''<event/>''"] init
  have "startOfString (fst (scan_line ''<event/>'' scan_init (''DEBT'' @ ''\<newline>'')))"
    by blast
  with nl init show ?thesis by simp
qed

text \<open>
  The claim as it was stated fails: the first line of \<^const>\<open>doc_debt\<close> is not the bare
  text \<open>BT\<close>, yet the scan takes it as the start sentinel, so that the remarks line
  two lines below it is in the span and is rewritten.
\<close>

theorem sentinel_not_bare_counterexample:
  "\<not> bare_BT (doc_debt ! 0) \<and>
   startOfString (fst (scan_line ''<event/>'' scan_init (doc_debt ! 0))) \<and>
   calculate_digest doc_debt ''<event/>'' ! 2 = ''GENTEXT/REMARKS/<event/>//\<newline>'' \<and>
   calculate_digest doc_debt ''<event/>'' ! 2 \<noteq> doc_debt ! 2"
  by (simp add: bare_BT_def doc_debt_def doc_eval)

section \<open>Substitution of the remarks\<close>

text \<open>
  Claim C6, as amended.  Composition replaces every line of the span that contains the
  blank-remarks placeholder, not only the first one, with the payload between
  \<open>GENTEXT/REMARKS/\<close> and \<open>//\<close>; the other lines of the span keep their content.
\<close>

theorem every_blank_remarks_line_replaced:
  "\<forall>i<length lines. in_span lines i \<longrightarrow>
     calculate_digest lines cotString ! i =
       (if str_in ''GENTEXT/REMARKS/-//'' (lines ! i)
        then ''GENTEXT/REMARKS/'' @ cotString @ ''//\<newline>''
        else lines ! i)"
proof -
  obtain big where "\<forall>i<length lines. calculate_digest lines cotString ! i =
     (if in_span lines i then subst_remarks cotString (lines ! i)
      else if after_end lines i then fill_digest big (lines ! i)
      else lines ! i)"
    using compose_nth [of lines cotString] by blast
  then show ?thesis
    by (simp add: subst_remarks_def remarks_line_def)
qed

theorem every_blank_remarks_line_replaced_witness:
  "in_span doc_two_remarks 2 \<and> in_span doc_two_remarks 3 \<and>
   calculate_digest doc_two_remarks ''<event/>'' ! 2 = ''GENTEXT/REMARKS/<event/>//\<newline>'' \<and>
   calculate_digest doc_two_remarks ''<event/>'' ! 3 = ''GENTEXT/REMARKS/<event/>//\<newline>''"
proof -
  have span: "in_span doc_two_remarks 2" "in_span doc_two_remarks 3"
    by (simp_all add: in_span_def start_index_def end_index_def doc_two_remarks_def)
  have len: "(2::nat) < length doc_two_remarks" "(3::nat) < length doc_two_remarks"
    by (simp_all add: doc_two_remarks_def)
  have ph: "str_in ''GENTEXT/REMARKS/-//'' (doc_two_remarks ! 2)"
    "str_in ''GENTEXT/REMARKS/-//'' (doc_two_remarks ! 3)"
    by (simp_all add: doc_two_remarks_def)
  from every_blank_remarks_line_replaced [of doc_two_remarks "''<event/>''"] span len ph
  show ?thesis by simp
qed

text \<open>
  The claim as it was stated fails: in a span with two placeholder lines the second one
  does not keep its content.
\<close>

theorem later_blank_remarks_line_counterexample:
  "str_in ''GENTEXT/REMARKS/-//'' (doc_two_remarks ! 2) \<and>
   str_in ''GENTEXT/REMARKS/-//'' (doc_two_remarks ! 3) \<and>
   in_span doc_two_remarks 2 \<and> in_span doc_two_remarks 3 \<and>
   calculate_digest doc_two_remarks ''<event/>'' ! 3 \<noteq> doc_two_remarks ! 3"
  by (simp add: in_span_def start_index_def end_index_def doc_two_remarks_def doc_eval)

section \<open>An invalid template\<close>

text \<open>
  Claim C7 does not hold of tak2mm.py.  The invalid file is deleted and never held, but
  the \<^verbatim>\<open>break\<close> after the deletion leaves the polling loop: the thread removes the files
  that are left, valid ones included, and returns.
\<close>

theorem watcher_stops_on_invalid_template:
  "\<not> is_cot_template [''hello\<newline>''] \<and> is_cot_template doc_plain \<and>
   templateListener (Suc n)
     \<lparr>directory = [(''junk.txt'', Some [''hello\<newline>'']), (''next.txt'', Some doc_plain)],
      held_lines = [], messageCreator_file = []\<rparr> =
   Exited \<lparr>directory = [], held_lines = [], messageCreator_file = []\<rparr>"
  by (simp add: is_cot_template_def doc_plain_def templateListener_iter_def templateListener_exit_def)

text \<open>
  In general: whenever no template is held and the first file of the listing can be
  read and is not a template, the first iteration ends the thread.
\<close>

lemma invalid_template_ends_thread:
  assumes "held_lines w = []" and "directory w = (filename, Some ls) # others"
    and "\<not> is_cot_template ls"
  shows "templateListener (Suc n) w =
         Exited (w\<lparr>directory := [], messageCreator_file := [], held_lines := []\<rparr>)"
  using assms by (simp add: templateListener_iter_def templateListener_exit_def)

section \<open>A document without an end sentinel\<close>

text \<open>
  Claim C8, as amended.  For a document with a start sentinel and no second sentinel
  after the classifier, \<^verbatim>\<open>calculate_digest\<close> returns (the function is total) a document
  of the same length in which no digest is filled in: a line that changes is a line of
  the span that contains the blank-remarks placeholder, and it becomes the remarks
  line; every digest-placeholder line that does not also contain the blank-remarks
  placeholder keeps its content.
\<close>

theorem no_end_sentinel_no_digest:
  assumes "start_index lines = Some s" and "end_index lines = None"
  shows "length (calculate_digest lines cotString) = length lines \<and>
    (\<forall>i<length lines.
       calculate_digest lines cotString ! i = lines ! i \<or>
       (in_span lines i \<and> str_in ''GENTEXT/REMARKS/-//'' (lines ! i) \<and>
        calculate_digest lines cotString ! i = ''GENTEXT/REMARKS/'' @ cotString @ ''//\<newline>'')) \<and>
    (\<forall>i<length lines.
       str_in ''[DIGEST:'' (lines ! i) \<and> \<not> str_in ''GENTEXT/REMARKS/-//'' (lines ! i) \<longrightarrow>
       calculate_digest lines cotString ! i = lines ! i)"
proof -
  obtain big where nth: "\<And>i. i < length lines \<Longrightarrow> calculate_digest lines cotString ! i =
     (if in_span lines i then subst_remarks cotString (lines ! i)
      else if after_end lines i then fill_digest big (lines ! i)
      else lines ! i)"
    using compose_nth [of lines cotString] by blast
  have no_after: "\<not> after_end lines i" for i
    using assms(2) by (simp add: after_end_def)
  have line: "calculate_digest lines cotString ! i =
      (if in_span lines i then subst_remarks cotString (lines ! i) else lines ! i)"
    if "i < length lines" for i
    using nth [OF that] no_after by simp
  show ?thesis
    using line by (simp add: calculate_digest_length subst_remarks_def remarks_line_def)
qed

theorem no_end_sentinel_no_digest_witness:
  "start_index doc_no_end = Some 0 \<and> end_index doc_no_end = None \<and>
   str_in ''[DIGEST:'' (doc_no_end ! 3) \<and> \<not> str_in ''GENTEXT/REMARKS/-//'' (doc_no_end ! 3) \<and>
   calculate_digest doc_no_end ''<event/>'' ! 3 = doc_no_end ! 3 \<and>
   length (calculate_digest doc_no_end ''<event/>'') = length doc_no_end"
proof -
  have start: "start_index doc_no_end = Some 0"
    by (simp add: start_index_def doc_no_end_def)
  have no_end: "end_index doc_no_end = None"
    by (simp add: end_index_def start_index_def doc_no_end_def)
  have line: "(3::nat) < length doc_no_end" "str_in ''[DIGEST:'' (doc_no_end ! 3)"
    "\<not> str_in ''GENTEXT/REMARKS/-//'' (doc_no_end ! 3)"
    by (simp_all add: doc_no_end_def)
  from no_end_sentinel_no_digest [OF start no_end, of "''<event/>''"] line
  have "calculate_digest doc_no_end ''<event/>'' ! 3 = doc_no_end ! 3"
    and "length (calculate_digest doc_no_end ''<event/>'') = length doc_no_end"
    by blast+
  with start no_end line show ?thesis by simp
qed

text \<open>
  The claim as it was stated fails for a line of the span that carries both markers:
  it contains the digest marker before and after the call, and its content changes.
\<close>

theorem digest_line_rewritten_counterexample:
  "start_index doc_no_end_mixed = Some 0 \<and> end_index doc_no_end_mixed = None \<and>
   str_in ''[DIGEST:'' (doc_no_end_mixed ! 2) \<and>
   str_in ''[DIGEST:'' (calculate_digest doc_no_end_mixed ''[DIGEST:X]'' ! 2) \<and>
   calculate_digest doc_no_end_mixed ''[DIGEST:X]'' ! 2 \<noteq> doc_no_end_mixed ! 2"
  by (simp add: start_index_def end_index_def doc_no_end_mixed_def doc_eval)

section \<open>Composing twice\<close>

lemma startswith_remarks_tail:
  assumes "startswith (a # p @ ''//\<newline>'') ''BT\<newline>''"
  shows "startswith (a # p) ''BT\<newline>''"
proof (cases p)
  case Nil
  with assms show ?thesis by simp
next
  case (Cons b p1)
  with assms show ?thesis by (cases p1) auto
qed

lemma str_in_remarks_tail:
  "str_in ''BT\<newline>'' (p @ ''//\<newline>'') \<Longrightarrow> str_in ''BT\<newline>'' p"
proof (induction p)
  case Nil
  then show ?case by simp
next
  case (Cons a p)
  from Cons.prems
  have "startswith (a # p @ ''//\<newline>'') ''BT\<newline>'' \<or> str_in ''BT\<newline>'' (p @ ''//\<newline>'')"
    by simp
  then show ?case
  proof
    assume "startswith (a # p @ ''//\<newline>'') ''BT\<newline>''"
    then have "startswith (a # p) ''BT\<newline>''" by (rule startswith_remarks_tail)
    then show ?thesis by simp
  next
    assume "str_in ''BT\<newline>'' (p @ ''//\<newline>'')"
    then have "str_in ''BT\<newline>'' p" by (rule Cons.IH)
    then show ?thesis by simp
  qed
qed

lemma remarks_line_no_BT:
  assumes "\<not> str_in ''BT\<newline>'' cot"
  shows "\<not> str_in ''BT\<newline>'' (remarks_line cot)"
proof
  assume "str_in ''BT\<newline>'' (remarks_line cot)"
  then have "str_in ''BT\<newline>'' (cot @ ''//\<newline>'')"
    by (simp add: remarks_line_def)
  then have "str_in ''BT\<newline>'' cot" by (rule str_in_remarks_tail)
  with assms show False by simp
qed

lemma subst_span_no_BT:
  assumes "\<not> str_in ''BT\<newline>'' cot" and "\<forall>l\<in>set span. \<not> str_in ''BT\<newline>'' l"
  shows "\<forall>l\<in>set (map (subst_remarks cot) span). \<not> str_in ''BT\<newline>'' l"
  using assms remarks_line_no_BT [OF assms(1)] by (auto simp: subst_remarks_def)

lemma fill_digest_idem: "fill_digest big (fill_digest big l) = fill_digest big l"
  by (simp add: fill_digest_def digest_line_def)

lemma canonical_subst: "canonical cot (map (subst_remarks cot) span) = canonical cot span"
  by (simp add: canonical_def comp_def subst_remarks_idem)

text \<open>
  Claim C9, as amended.  For every template, and every payload that does not contain
  \<open>BT\<close> followed by a newline (in particular every payload of one line, which is what
  the listeners deposit), composing the already composed document again with the same
  payload returns it unchanged, digest line included.
\<close>

theorem composition_idempotent:
  assumes "\<not> str_in ''BT\<newline>'' cotString"
  shows "calculate_digest (calculate_digest lines cotString) cotString =
         calculate_digest lines cotString"
proof (cases lines rule: shape_cases)
  case none
  then show ?thesis by (simp add: compose_no_start)
next
  case (start_only pre sl)
  have "calculate_digest lines cotString = lines"
    unfolding start_only(1) using start_only(4,5) by (rule compose_start_only)
  then show ?thesis by simp
next
  case (no_end pre sl c span)
  let ?span' = "map (subst_remarks cotString) span"
  have out: "calculate_digest lines cotString = pre @ sl # c # ?span'"
    unfolding no_end(1) using no_end(4,5,6) by (rule compose_no_end)
  have "\<forall>l\<in>set ?span'. \<not> str_in ''BT\<newline>'' l"
    using assms no_end(6) by (rule subst_span_no_BT)
  with no_end(4,5)
  have "calculate_digest (pre @ sl # c # ?span') cotString =
        pre @ sl # c # map (subst_remarks cotString) ?span'"
    by (rule compose_no_end)
  then show ?thesis
    by (simp add: out comp_def subst_remarks_idem)
next
  case (full pre sl c span e post)
  let ?span' = "map (subst_remarks cotString) span"
  let ?post' = "map (fill_digest (canonical cotString span)) post"
  have out: "calculate_digest lines cotString = pre @ sl # c # ?span' @ e # ?post'"
    unfolding full(1) using full(4,5,6,7) by (rule compose_full)
  have "\<forall>l\<in>set ?span'. \<not> str_in ''BT\<newline>'' l"
    using assms full(6) by (rule subst_span_no_BT)
  with full(4,5)
  have "calculate_digest (pre @ sl # c # ?span' @ e # ?post') cotString =
        pre @ sl # c # map (subst_remarks cotString) ?span' @ e #
        map (fill_digest (canonical cotString ?span')) ?post'"
    using full(7) by (rule compose_full)
  then show ?thesis
    by (simp add: out comp_def subst_remarks_idem canonical_subst fill_digest_idem)
qed

theorem composition_idempotent_witness:
  "\<not> str_in ''BT\<newline>'' ''<event/>'' \<and>
   calculate_digest (calculate_digest doc_plain ''<event/>'') ''<event/>'' =
   calculate_digest doc_plain ''<event/>''"
proof -
  have "\<not> str_in ''BT\<newline>'' ''<event/>''" by simp
  then show ?thesis
    using composition_idempotent [of "''<event/>''" doc_plain] by simp
qed

text \<open>
  The claim as it was stated fails for a payload that contains \<open>BT\<close> and a newline:
  in the composed document the remarks line is taken for the end sentinel, and the
  second composition fills in the digest of the empty text.
\<close>

theorem composition_twice_counterexample:
  "calculate_digest doc_plain ''BT\<newline>'' ! 5 = ''[DIGEST:2C54A6599D4743ADA655F6B9EA6B0FCA]\<newline>'' \<and>
   calculate_digest (calculate_digest doc_plain ''BT\<newline>'') ''BT\<newline>'' ! 5 =
     ''[DIGEST:D41D8CD98F00B204E9800998ECF8427E]\<newline>'' \<and>
   calculate_digest (calculate_digest doc_plain ''BT\<newline>'') ''BT\<newline>'' ! 5 \<noteq>
   calculate_digest doc_plain ''BT\<newline>'' ! 5"
proof -
  have once: "calculate_digest doc_plain ''BT\<newline>'' =
     [''SUBJ/COTXML//\<newline>'', ''BT\<newline>'', ''UNCLAS\<newline>'', ''GENTEXT/REMARKS/BT\<newline>//\<newline>'', ''BT\<newline>'',
      ''[DIGEST:2C54A6599D4743ADA655F6B9EA6B0FCA]\<newline>'']"
    by (simp add: doc_plain_def doc_eval md5_remarks_BT)
  have twice: "calculate_digest
     [''SUBJ/COTXML//\<newline>'', ''BT\<newline>'', ''UNCLAS\<newline>'', ''GENTEXT/REMARKS/BT\<newline>//\<newline>'', ''BT\<newline>'',
      ''[DIGEST:2C54A6599D4743ADA655F6B9EA6B0FCA]\<newline>''] ''BT\<newline>'' =
     [''SUBJ/COTXML//\<newline>'', ''BT\<newline>'', ''UNCLAS\<newline>'', ''GENTEXT/REMARKS/BT\<newline>//\<newline>'', ''BT\<newline>'',
      ''[DIGEST:D41D8CD98F00B204E9800998ECF8427E]\<newline>'']"
    by (simp add: doc_eval md5_empty)
  show ?thesis
    by (simp add: once twice)
qed

section \<open>The frame of composition\<close>

text \<open>
  Claim C10.  For every document and payload, \<^verbatim>\<open>calculate_digest\<close> returns as many
  lines as it was given; a line whose content differs from the input is either a line
  of the span that contains the blank-remarks placeholder or a line after the end
  sentinel that contains the digest marker; every line up to and including the first
  start sentinel, and the classifier line after it, is returned unchanged.
\<close>

theorem calculate_digest_frame:
  "length (calculate_digest lines cotString) = length lines \<and>
   (\<forall>i<length lines. calculate_digest lines cotString ! i \<noteq> lines ! i \<longrightarrow>
      (in_span lines i \<and> str_in ''GENTEXT/REMARKS/-//'' (lines ! i)) \<or>
      (after_end lines i \<and> str_in ''[DIGEST:'' (lines ! i))) \<and>
   (\<forall>s i. start_index lines = Some s \<and> i \<le> s + 1 \<and> i < length lines \<longrightarrow>
      calculate_digest lines cotString ! i = lines ! i)"
proof -
  obtain big where nth: "\<And>i. i < length lines \<Longrightarrow> calculate_digest lines cotString ! i =
     (if in_span lines i then subst_remarks cotString (lines ! i)
      else if after_end lines i then fill_digest big (lines ! i)
      else lines ! i)"
    using compose_nth [of lines cotString] by blast
  have changed: "(in_span lines i \<and> str_in ''GENTEXT/REMARKS/-//'' (lines ! i)) \<or>
      (after_end lines i \<and> str_in ''[DIGEST:'' (lines ! i))"
    if "i < length lines" "calculate_digest lines cotString ! i \<noteq> lines ! i" for i
  proof (cases "in_span lines i")
    case True
    with that nth [of i] have "subst_remarks cotString (lines ! i) \<noteq> lines ! i" by simp
    then have "str_in ''GENTEXT/REMARKS/-//'' (lines ! i)"
      by (auto simp: subst_remarks_def split: if_splits)
    with True show ?thesis by simp
  next
    case False
    with that nth [of i] have a: "after_end lines i" and "fill_digest big (lines ! i) \<noteq> lines ! i"
      by (auto split: if_splits)
    then have "str_in ''[DIGEST:'' (lines ! i)"
      by (auto simp: fill_digest_def split: if_splits)
    with a show ?thesis by simp
  qed
  have early: "calculate_digest lines cotString ! i = lines ! i"
    if "start_index lines = Some s" "i \<le> s + 1" "i < length lines" for s i
  proof -
    have "\<not> in_span lines i"
      using that by (simp add: in_span_def)
    moreover have "\<not> after_end lines i"
      using that by (auto simp: after_end_def end_index_def split: option.splits)
    ultimately show ?thesis using nth [OF that(3)] by simp
  qed
  show ?thesis
    using changed early by (simp add: calculate_digest_length)
qed

theorem calculate_digest_frame_witness:
  "length (calculate_digest doc_plain ''<event/>'') = length doc_plain \<and>
   calculate_digest doc_plain ''<event/>'' ! 3 \<noteq> doc_plain ! 3 \<and>
   in_span doc_plain 3 \<and> str_in ''GENTEXT/REMARKS/-//'' (doc_plain ! 3) \<and>
   start_index doc_plain = Some 1 \<and>
   calculate_digest doc_plain ''<event/>'' ! 2 = doc_plain ! 2"
proof -
  note frame = calculate_digest_frame [of doc_plain "''<event/>''"]
  have len: "(3::nat) < length doc_plain" "(2::nat) < length doc_plain"
    by (simp_all add: doc_plain_def)
  have differs: "calculate_digest doc_plain ''<event/>'' ! 3 \<noteq> doc_plain ! 3"
    by (simp add: doc_plain_def doc_eval)
  have no_digest: "\<not> str_in ''[DIGEST:'' (doc_plain ! 3)"
    by (simp add: doc_plain_def)
  have start: "start_index doc_plain = Some 1"
    by (simp add: start_index_def doc_plain_def)
  from frame len(1) differs no_digest
  have "in_span doc_plain 3 \<and> str_in ''GENTEXT/REMARKS/-//'' (doc_plain ! 3)"
    by blast
  moreover from frame start len(2) have "calculate_digest doc_plain ''<event/>'' ! 2 = doc_plain ! 2"
    by simp
  ultimately show ?thesis
    using frame differs start by simp
qed

end
